theory Spec2Isabelle
  imports Main "HOL-Library.Word"
begin

section \<open>The runtime: buffers, numbers, strings\<close>

text \<open>
  The DNS server works on Node.js \<open>Buffer\<close>s. A buffer is a list of bytes; an offset is a
  natural number (every offset in the source is a non-negative integer). A JavaScript string
  is its sequence of UTF-16 code units. A JavaScript number is an integer or \<open>NaN\<close>
  (the source produces no fraction: every number is a literal, a byte, a sum of those, or a
  result of \<open>parseInt\<close>).

  A read or write outside a buffer, and a write of a value outside the field's range, throw
  a \<open>RangeError\<close> (\<open>ERR_OUT_OF_RANGE\<close> stands for it, whatever its code); closing a
  datagram socket that is not running throws \<open>ERR_SOCKET_DGRAM_NOT_RUNNING\<close>. A thrown
  exception is the \<open>Inl\<close> of a sum.
\<close>

type_synonym byte = "8 word"
type_synonym buffer = "byte list"
type_synonym jsstring = "16 word list"

datatype error = ERR_OUT_OF_RANGE | ERR_SOCKET_DGRAM_NOT_RUNNING

datatype number = NaN | Num int

definition bindE :: "error + 'a \<Rightarrow> ('a \<Rightarrow> error + 'b) \<Rightarrow> error + 'b" where
  "bindE m f = (case m of Inl e \<Rightarrow> Inl e | Inr x \<Rightarrow> f x)"

text \<open>\<open>Buffer.alloc(n)\<close>: \<open>n\<close> zero bytes.\<close>

definition alloc :: "nat \<Rightarrow> buffer" where
  "alloc n = replicate n 0"

text \<open>
  \<open>buf.readUInt8(offset)\<close> and \<open>buf.readUInt16BE(offset)\<close>: the bytes read must all
  exist, otherwise the call throws.
\<close>

definition readUInt8 :: "buffer \<Rightarrow> nat \<Rightarrow> error + nat" where
  "readUInt8 buf offset =
     (if offset < length buf then Inr (unat (buf ! offset)) else Inl ERR_OUT_OF_RANGE)"

definition readUInt16BE :: "buffer \<Rightarrow> nat \<Rightarrow> error + nat" where
  "readUInt16BE buf offset =
     (if offset + 1 < length buf
      then Inr (unat (buf ! offset) * 256 + unat (buf ! (offset + 1)))
      else Inl ERR_OUT_OF_RANGE)"

text \<open>
  The writers check the value first (\<open>value > max || value < min\<close> throws; both comparisons
  are false for \<open>NaN\<close>, which therefore passes), then the bounds, then store bytes. A byte
  store keeps the value modulo 256 and stores 0 for \<open>NaN\<close>; \<open>value >>> 8\<close> is 0 for
  \<open>NaN\<close> and the quotient by 256 for a value of the checked range.
\<close>

fun in_range :: "number \<Rightarrow> int \<Rightarrow> int \<Rightarrow> bool" where
  "in_range NaN lo hi = True"
| "in_range (Num n) lo hi = (\<not> (n > hi \<or> n < lo))"

fun to_byte :: "number \<Rightarrow> byte" where
  "to_byte NaN = 0"
| "to_byte (Num n) = word_of_int (n mod 256)"

fun shr8 :: "number \<Rightarrow> number" where
  "shr8 NaN = Num 0"
| "shr8 (Num n) = Num (n div 256)"

definition writeUInt8 :: "buffer \<Rightarrow> number \<Rightarrow> nat \<Rightarrow> error + buffer" where
  "writeUInt8 buf v offset =
     (if \<not> in_range v 0 255 then Inl ERR_OUT_OF_RANGE
      else if \<not> offset < length buf then Inl ERR_OUT_OF_RANGE
      else Inr (buf[offset := to_byte v]))"

definition writeUInt16BE :: "buffer \<Rightarrow> number \<Rightarrow> nat \<Rightarrow> error + buffer" where
  "writeUInt16BE buf v offset =
     (if \<not> in_range v 0 65535 then Inl ERR_OUT_OF_RANGE
      else if \<not> offset + 1 < length buf then Inl ERR_OUT_OF_RANGE
      else Inr (buf[offset := to_byte (shr8 v), offset + 1 := to_byte v]))"

definition writeUInt32BE :: "buffer \<Rightarrow> number \<Rightarrow> nat \<Rightarrow> error + buffer" where
  "writeUInt32BE buf v offset =
     (if \<not> in_range v 0 4294967295 then Inl ERR_OUT_OF_RANGE
      else if \<not> offset + 3 < length buf then Inl ERR_OUT_OF_RANGE
      else Inr (buf[offset + 3 := to_byte v,
                    offset + 2 := to_byte (shr8 v),
                    offset + 1 := to_byte (shr8 (shr8 v)),
                    offset := to_byte (shr8 (shr8 (shr8 v)))]))"

text \<open>
  \<open>source.copy(target, targetStart, sourceStart, sourceEnd)\<close>: throws when \<open>sourceStart\<close>
  lies beyond the source; copies nothing when the target offset is outside the target or the
  source range is empty; otherwise copies as many bytes as the range, the source and the
  target allow. The target is mutated in place: the model returns it.
\<close>

definition copy :: "buffer \<Rightarrow> buffer \<Rightarrow> nat \<Rightarrow> nat \<Rightarrow> nat \<Rightarrow> error + buffer" where
  "copy source target targetStart sourceStart sourceEnd =
     (if sourceStart > length source then Inl ERR_OUT_OF_RANGE
      else if targetStart \<ge> length target \<or> sourceStart \<ge> sourceEnd then Inr target
      else
        let nb = min (min (sourceEnd - sourceStart) (length target - targetStart))
                     (length source - sourceStart)
        in Inr (take targetStart target @ take nb (drop sourceStart source)
                @ drop (targetStart + nb) target))"

text \<open>\<open>buf.slice(start, end)\<close> for non-negative arguments: both ends are clamped.\<close>

definition slice :: "buffer \<Rightarrow> nat \<Rightarrow> nat \<Rightarrow> buffer" where
  "slice buf start fin = take (fin - start) (drop start buf)"

section \<open>The record store\<close>

text \<open>
  \<open>this.dnsRecords\<close> is a \<open>Map\<close> from the lower-cased domain to \<open>{type, value, ttl}\<close>.
  \<open>String.prototype.toLowerCase\<close> is the runtime's (full Unicode case mapping); the
  operations take it as the parameter \<open>toLowerCase\<close>, so what is proved holds for every
  case mapping. The ttl of a record is an integer; it need not fit 32 bits.
\<close>

record dns_record =
  rec_type :: jsstring
  rec_value :: jsstring
  rec_ttl :: int

type_synonym record_store = "jsstring \<rightharpoonup> dns_record"

text \<open>\<open>addRecord(domain, type, value, ttl = 300)\<close>: an omitted \<open>ttl\<close> is \<open>None\<close>.\<close>

definition addRecord ::
  "(jsstring \<Rightarrow> jsstring) \<Rightarrow> record_store \<Rightarrow> jsstring \<Rightarrow> jsstring \<Rightarrow> jsstring \<Rightarrow> int option
   \<Rightarrow> record_store" where
  "addRecord toLowerCase dnsRecords domain ty v ttl =
     dnsRecords(toLowerCase domain \<mapsto>
       \<lparr>rec_type = ty, rec_value = v, rec_ttl = (case ttl of None \<Rightarrow> 300 | Some t \<Rightarrow> t)\<rparr>)"

text \<open>
  \<open>removeRecord(domain)\<close>: \<open>Map.delete\<close> removes the key and tells whether it was there.
  The result is the returned boolean and the store afterwards.
\<close>

definition removeRecord ::
  "(jsstring \<Rightarrow> jsstring) \<Rightarrow> record_store \<Rightarrow> jsstring \<Rightarrow> bool \<times> record_store" where
  "removeRecord toLowerCase dnsRecords domain =
     (if dnsRecords (toLowerCase domain) \<noteq> None
      then (True, dnsRecords(toLowerCase domain := None))
      else (False, dnsRecords))"

section \<open>The wire codec: the error response\<close>

text \<open>
  \<open>createDNSErrorResponse(originalMsg)\<close>: a copy of the datagram with the flags field
  (bytes 2 and 3) set to \<open>0x8183\<close>.
\<close>

definition createDNSErrorResponse :: "buffer \<Rightarrow> error + buffer" where
  "createDNSErrorResponse originalMsg =
     bindE (copy originalMsg (alloc (length originalMsg)) 0 0 (length originalMsg))
       (\<lambda>response. writeUInt16BE response (Num 0x8183) 2)"

section \<open>Strings of the runtime: \<open>split\<close>, \<open>join\<close>, \<open>parseInt\<close>\<close>

text \<open>\<open>labels.join('.')\<close>: the labels with a full stop (code unit \<open>0x2E\<close>) between them.\<close>

fun js_join :: "jsstring list \<Rightarrow> jsstring" where
  "js_join [] = []"
| "js_join [l] = l"
| "js_join (l # ls) = l @ [0x2E] @ js_join ls"

text \<open>
  \<open>value.split('.')\<close>: the pieces between the full stops; the empty string has the one
  piece \<open>''\<close>.
\<close>

fun js_split :: "jsstring \<Rightarrow> jsstring list" where
  "js_split [] = [[]]"
| "js_split (c # cs) =
     (if c = 0x2E then [] # js_split cs
      else (case js_split cs of [] \<Rightarrow> [[c]] | p # ps \<Rightarrow> (c # p) # ps))"

text \<open>
  \<open>parseInt(string)\<close> with no radix (ECMAScript, \<open>parseInt\<close>): leading white space and line
  terminators are skipped, then an optional sign, then the prefix \<open>0x\<close> or \<open>0X\<close> selects
  radix 16 (radix 10 otherwise); the longest run of digits of the radix is the magnitude, and
  no digit at all gives \<open>NaN\<close>. Above \<open>2^53\<close> the runtime rounds the result to a double;
  the model keeps the exact integer, which the writers treat alike (both are beyond every
  field's range). \<open>-0\<close> is \<open>Num 0\<close>: the writers treat both as 0.
\<close>

definition isStrWhiteSpaceChar :: "16 word \<Rightarrow> bool" where
  "isStrWhiteSpaceChar c =
     (c \<in> set [0x0009, 0x000A, 0x000B, 0x000C, 0x000D, 0x0020, 0x00A0, 0x1680,
               0x2000, 0x2001, 0x2002, 0x2003, 0x2004, 0x2005, 0x2006, 0x2007,
               0x2008, 0x2009, 0x200A, 0x2028, 0x2029, 0x202F, 0x205F, 0x3000, 0xFEFF])"

definition digitValue :: "16 word \<Rightarrow> nat option" where
  "digitValue c =
     (if 0x30 \<le> c \<and> c \<le> 0x39 then Some (unat c - 0x30)
      else if 0x61 \<le> c \<and> c \<le> 0x7A then Some (unat c - 0x61 + 10)
      else if 0x41 \<le> c \<and> c \<le> 0x5A then Some (unat c - 0x41 + 10)
      else None)"

definition isRadixDigit :: "nat \<Rightarrow> 16 word \<Rightarrow> bool" where
  "isRadixDigit R c = (case digitValue c of None \<Rightarrow> False | Some d \<Rightarrow> d < R)"

definition digitsValue :: "nat \<Rightarrow> jsstring \<Rightarrow> nat" where
  "digitsValue R Z = foldl (\<lambda>acc c. acc * R + the (digitValue c)) 0 Z"

definition parseInt :: "jsstring \<Rightarrow> number" where
  "parseInt string =
     (let S = dropWhile isStrWhiteSpaceChar string;
          sign = (if S \<noteq> [] \<and> hd S = 0x2D then - 1 else 1);
          S = (if S \<noteq> [] \<and> (hd S = 0x2B \<or> hd S = 0x2D) then tl S else S);
          hex = (take 2 S = [0x30, 0x78] \<or> take 2 S = [0x30, 0x58]);
          R = (if hex then 16 else 10);
          S = (if hex then drop 2 S else S);
          Z = takeWhile (isRadixDigit R) S
      in if Z = [] then NaN else Num (sign * int (digitsValue R Z)))"

section \<open>The wire codec: parsing a query\<close>

text \<open>
  \<open>parseDNSQuery(msg)\<close>. The six header fields are read first. The name loop reads a
  length byte, stops behind a zero length, and otherwise decodes the label and moves on by
  \<open>length + 1\<close>; it ends because the offset grows and a read outside the buffer throws.
  \<open>msg.toString('utf8', start, end)\<close> never throws (its range is clamped as \<open>slice\<close>
  clamps it); the UTF-8 decoder is the runtime's and is the parameter \<open>utf8\<close>. The field
  \<open>typeString\<close> of the result is left out: nothing reads it.
\<close>

record dns_header =
  h_id :: nat
  h_flags :: nat
  h_qdcount :: nat
  h_ancount :: nat
  h_nscount :: nat
  h_arcount :: nat

record dns_query =
  q_header :: dns_header
  q_domain :: jsstring
  q_type :: nat
  q_class :: nat

function parseLabels ::
  "(buffer \<Rightarrow> jsstring) \<Rightarrow> buffer \<Rightarrow> nat \<Rightarrow> jsstring list \<Rightarrow> error + (jsstring list \<times> nat)" where
  "parseLabels utf8 msg offset labels =
     (case readUInt8 msg offset of
        Inl e \<Rightarrow> Inl e
      | Inr len \<Rightarrow>
          if len = 0 then Inr (labels, offset + 1)
          else parseLabels utf8 msg (offset + len + 1)
                 (labels @ [utf8 (slice msg (offset + 1) (offset + 1 + len))]))"
  by pat_completeness auto
termination
  by (relation "measure (\<lambda>(utf8, msg, offset, labels). length msg - offset)")
     (auto simp: readUInt8_def split: if_splits)

definition parseDNSQuery :: "(buffer \<Rightarrow> jsstring) \<Rightarrow> buffer \<Rightarrow> error + dns_query" where
  "parseDNSQuery utf8 msg =
     bindE (readUInt16BE msg 0) (\<lambda>id.
     bindE (readUInt16BE msg 2) (\<lambda>flags.
     bindE (readUInt16BE msg 4) (\<lambda>qdcount.
     bindE (readUInt16BE msg 6) (\<lambda>ancount.
     bindE (readUInt16BE msg 8) (\<lambda>nscount.
     bindE (readUInt16BE msg 10) (\<lambda>arcount.
     bindE (parseLabels utf8 msg 12 []) (\<lambda>(labels, offset).
     bindE (readUInt16BE msg offset) (\<lambda>ty.
     bindE (readUInt16BE msg (offset + 2)) (\<lambda>cl.
       Inr \<lparr>q_header = \<lparr>h_id = id, h_flags = flags, h_qdcount = qdcount,
                          h_ancount = ancount, h_nscount = nscount, h_arcount = arcount\<rparr>,
            q_domain = js_join labels, q_type = ty, q_class = cl\<rparr>)))))))))"

section \<open>The wire codec: the answer\<close>

text \<open>
  The loop of \<open>createDNSResponse\<close> that copies the question name: bytes are copied one by
  one from offset 12 up to the first zero byte (the source reads each byte twice, for the
  test and for the copy). It ends because the offset grows and a read outside the query
  throws.
\<close>

function copyName :: "buffer \<Rightarrow> buffer \<Rightarrow> nat \<Rightarrow> error + (buffer \<times> nat)" where
  "copyName originalMsg response offset =
     (case readUInt8 originalMsg offset of
        Inl e \<Rightarrow> Inl e
      | Inr b \<Rightarrow>
          if b \<noteq> 0
          then (case writeUInt8 response (Num (int b)) offset of
                  Inl e \<Rightarrow> Inl e
                | Inr response' \<Rightarrow> copyName originalMsg response' (offset + 1))
          else Inr (response, offset))"
  by pat_completeness auto
termination
  by (relation "measure (\<lambda>(originalMsg, response, offset). length originalMsg - offset)")
     (auto simp: readUInt8_def split: if_splits)

text \<open>
  \<open>ipParts.forEach(part => { response.writeUInt8(parseInt(part), offset); offset++; })\<close>
\<close>

fun writeParts :: "buffer \<Rightarrow> nat \<Rightarrow> jsstring list \<Rightarrow> error + (buffer \<times> nat)" where
  "writeParts response offset [] = Inr (response, offset)"
| "writeParts response offset (part # parts) =
     (case writeUInt8 response (parseInt part) offset of
        Inl e \<Rightarrow> Inl e
      | Inr response' \<Rightarrow> writeParts response' (offset + 1) parts)"

text \<open>
  \<open>createDNSResponse(query, record, originalMsg)\<close>, statement by statement. The string
  \<open>'A'\<close> is the code unit \<open>0x41\<close>.
\<close>

definition createDNSResponse :: "dns_query \<Rightarrow> dns_record \<Rightarrow> buffer \<Rightarrow> error + buffer" where
  "createDNSResponse query record originalMsg =
     bindE (copy originalMsg (alloc 512) 0 0 12) (\<lambda>response.
     bindE (writeUInt16BE response (Num 0x8180) 2) (\<lambda>response.
     bindE (writeUInt16BE response (Num 1) 6) (\<lambda>response.
     bindE (copyName originalMsg response 12) (\<lambda>(response, offset).
     bindE (writeUInt8 response (Num 0) offset) (\<lambda>response.
     let offset = offset + 1 in
     bindE (copy originalMsg response offset offset (offset + 4)) (\<lambda>response.
     let offset = offset + 4 in
     bindE (writeUInt16BE response (Num 0xC00C) offset) (\<lambda>response.
     let offset = offset + 2 in
     bindE (writeUInt16BE response (Num (if rec_type record = [0x41] then 1 else 1)) offset)
       (\<lambda>response.
     let offset = offset + 2 in
     bindE (writeUInt16BE response (Num 1) offset) (\<lambda>response.
     let offset = offset + 2 in
     bindE (writeUInt32BE response (Num (rec_ttl record)) offset) (\<lambda>response.
     let offset = offset + 4 in
     bindE (if rec_type record = [0x41]
            then bindE (writeUInt16BE response (Num 4) offset) (\<lambda>response.
                   let offset = offset + 2 in
                   writeParts response offset (js_split (rec_value record)))
            else Inr (response, offset)) (\<lambda>(response, offset).
     Inr (slice response 0 offset))))))))))))"

section \<open>The dispatcher\<close>

text \<open>
  \<open>handleDNSQuery(msg, rinfo)\<close>. What the handler does with a datagram is one of two
  actions: it sends a datagram back to the sender (\<open>this.server.send(_, rinfo.port,
  rinfo.address)\<close>), or it hands the query to \<open>forwardDNSQuery\<close>. Everything in the
  \<open>try\<close> block that throws is caught, and the \<open>catch\<close> block builds and sends the error
  response; an exception thrown in the \<open>catch\<close> block leaves the handler (\<open>Inl\<close>), and
  with it the \<open>'message'\<close> listener: it is an uncaught exception, which ends the process.
\<close>

datatype action = Send buffer | Forward buffer dns_query

definition handleDNSQuery ::
  "(buffer \<Rightarrow> jsstring) \<Rightarrow> (jsstring \<Rightarrow> jsstring) \<Rightarrow> record_store \<Rightarrow> buffer \<Rightarrow> error + action" where
  "handleDNSQuery utf8 toLowerCase dnsRecords msg =
     (case bindE (parseDNSQuery utf8 msg) (\<lambda>query.
             case dnsRecords (toLowerCase (q_domain query)) of
               Some record \<Rightarrow>
                 bindE (createDNSResponse query record msg) (\<lambda>response. Inr (Send response))
             | None \<Rightarrow> Inr (Forward msg query))
      of Inr a \<Rightarrow> Inr a
       | Inl error \<Rightarrow>
           bindE (createDNSErrorResponse msg) (\<lambda>errorResponse. Inr (Send errorResponse)))"

section \<open>The upstream forwarder\<close>

text \<open>
  \<open>forwardDNSQuery(msg, rinfo, query)\<close> creates a socket, sends the query upstream, and
  registers three callbacks: the callback of the upstream \<open>send\<close>, the socket's
  \<open>'message'\<close> listener and a timer of 5000 ms. The callback of \<open>send\<close> is called with
  the error of a failed send, or with none. The timer is never cleared, so its callback runs
  once; the listener runs for a datagram that arrives while the socket is open (a closed
  socket delivers nothing). The runtime runs one callback at a time, so a run of the
  forwarder is a sequence of events. The state is whether the upstream socket is open and
  the datagrams sent to the client so far. \<open>upstreamSocket.close()\<close> on a socket that is
  already closed throws \<open>ERR_SOCKET_DGRAM_NOT_RUNNING\<close>; thrown in a callback, it is an
  uncaught exception.
\<close>

record forward_state =
  socket_open :: bool
  to_upstream :: "buffer list"
  to_client :: "buffer list"

datatype event = SendCallback bool | UpstreamMessage buffer | Timeout

definition forwardDNSQuery :: "buffer \<Rightarrow> forward_state" where
  "forwardDNSQuery msg = \<lparr>socket_open = True, to_upstream = [msg], to_client = []\<rparr>"

definition socket_close :: "forward_state \<Rightarrow> error + forward_state" where
  "socket_close st =
     (if socket_open st then Inr (st\<lparr>socket_open := False\<rparr>)
      else Inl ERR_SOCKET_DGRAM_NOT_RUNNING)"

definition server_send :: "buffer \<Rightarrow> forward_state \<Rightarrow> forward_state" where
  "server_send datagram st = st\<lparr>to_client := to_client st @ [datagram]\<rparr>"

text \<open>
  The callback of \<open>send\<close>, \<open>err\<close> telling whether the send failed: on a failure it
  builds and sends the error response and returns; the socket stays open and the timer set.
\<close>

definition on_send :: "buffer \<Rightarrow> bool \<Rightarrow> forward_state \<Rightarrow> error + forward_state" where
  "on_send msg err st =
     (if err
      then bindE (createDNSErrorResponse msg) (\<lambda>errorResponse.
             Inr (server_send errorResponse st))
      else Inr st)"

text \<open>The \<open>'message'\<close> listener: relay the reply, then close the socket.\<close>

definition on_message :: "buffer \<Rightarrow> forward_state \<Rightarrow> error + forward_state" where
  "on_message response st = socket_close (server_send response st)"

text \<open>The timer's callback: close the socket, then build and send the error response.\<close>

definition on_timeout :: "buffer \<Rightarrow> forward_state \<Rightarrow> error + forward_state" where
  "on_timeout msg st =
     bindE (socket_close st) (\<lambda>st.
     bindE (createDNSErrorResponse msg) (\<lambda>errorResponse.
       Inr (server_send errorResponse st)))"

fun step :: "buffer \<Rightarrow> forward_state \<Rightarrow> event \<Rightarrow> error + forward_state" where
  "step msg st (SendCallback err) = on_send msg err st"
| "step msg st (UpstreamMessage response) =
     (if socket_open st then on_message response st else Inr st)"
| "step msg st Timeout = on_timeout msg st"

fun run :: "buffer \<Rightarrow> forward_state \<Rightarrow> event list \<Rightarrow> error + forward_state" where
  "run msg st [] = Inr st"
| "run msg st (ev # evs) =
     (case step msg st ev of Inl e \<Rightarrow> Inl e | Inr st' \<Rightarrow> run msg st' evs)"

section \<open>Concrete inputs\<close>

text \<open>
  For inputs in ASCII the runtime's functions are simple: UTF-8 decodes a byte below
  \<open>0x80\<close> to the code unit of the same value, and \<open>toLowerCase\<close> moves \<open>A\<close>..\<open>Z\<close> to
  \<open>a\<close>..\<open>z\<close> and keeps every other ASCII code unit. These two functions stand for the
  runtime's at the concrete ASCII inputs below; \<open>js\<close> writes a string literal.
\<close>

definition ascii_toString :: "buffer \<Rightarrow> jsstring" where
  "ascii_toString bytes = map ucast bytes"

definition ascii_toLowerCase :: "jsstring \<Rightarrow> jsstring" where
  "ascii_toLowerCase s = map (\<lambda>c. if 0x41 \<le> c \<and> c \<le> 0x5A then c + 0x20 else c) s"

definition js :: "string \<Rightarrow> jsstring" where
  "js s = map of_char s"

text \<open>
  A query for \<open>svc.local\<close>, type A, class IN, transaction id \<open>0x1234\<close>, and the store
  with the one record \<open>svc.local\<close>, A, \<open>127.0.0.1\<close>, ttl 300.
\<close>

definition svc_query :: buffer where
  "svc_query =
     [0x12, 0x34, 0x01, 0x00, 0, 1, 0, 0, 0, 0, 0, 0,
      3, 0x73, 0x76, 0x63, 5, 0x6C, 0x6F, 0x63, 0x61, 0x6C, 0, 0, 1, 0, 1]"

definition svc_store :: record_store where
  "svc_store =
     addRecord ascii_toLowerCase Map.empty (js ''svc.local'') (js ''A'') (js ''127.0.0.1'')
       (Some 300)"

text \<open>
  A query with two questions (question count 2): \<open>a\<close>, type A, class IN, and \<open>b\<close>,
  type A, class IN; the datagram the server answers with; and the store with the one record
  \<open>a\<close>, A, \<open>10.0.0.5\<close>, ttl 60.
\<close>

definition two_question_query :: buffer where
  "two_question_query =
     [0x12, 0x34, 0x01, 0x00, 0, 2, 0, 0, 0, 0, 0, 0,
      1, 0x61, 0, 0, 1, 0, 1,
      1, 0x62, 0, 0, 1, 0, 1]"

definition two_question_response :: buffer where
  "two_question_response =
     [0x12, 0x34, 0x81, 0x80, 0, 2, 0, 1, 0, 0, 0, 0,
      1, 0x61, 0, 0, 1, 0, 1,
      0xC0, 0x0C, 0, 1, 0, 1, 0, 0, 0, 60, 0, 4, 10, 0, 0, 5]"

definition store_a :: record_store where
  "store_a =
     addRecord ascii_toLowerCase Map.empty (js ''a'') (js ''A'') (js ''10.0.0.5'') (Some 60)"

text \<open>
  A query whose name is the single label of five bytes \<open>a\<close>, \<open>0x00\<close>, \<open>b\<close>, \<open>c\<close>,
  \<open>d\<close> (a label may hold any byte), type A, class IN; the store with a record, A,
  \<open>10.0.0.5\<close>, ttl 60, under that name; and the datagram the server answers with.
\<close>

definition nul_query :: buffer where
  "nul_query =
     [0x12, 0x34, 0x01, 0x00, 0, 1, 0, 0, 0, 0, 0, 0,
      5, 0x61, 0, 0x62, 0x63, 0x64, 0, 0, 1, 0, 1]"

definition nul_store :: record_store where
  "nul_store =
     addRecord ascii_toLowerCase Map.empty [0x61, 0, 0x62, 0x63, 0x64] (js ''A'')
       (js ''10.0.0.5'') (Some 60)"

definition nul_response :: buffer where
  "nul_response =
     [0x12, 0x34, 0x81, 0x80, 0, 1, 0, 1, 0, 0, 0, 0,
      5, 0x61, 0, 0x62, 0x63, 0x64, 0,
      0xC0, 0x0C, 0, 1, 0, 1, 0, 0, 0, 60, 0, 4, 10, 0, 0, 5]"

text \<open>
  A query for \<open>v6\<close>, type AAAA (28), class IN, and the store with the one record
  \<open>v6\<close>, AAAA, \<open>::1\<close>, ttl 300.
\<close>

definition aaaa_query :: buffer where
  "aaaa_query =
     [0x12, 0x34, 0x01, 0x00, 0, 1, 0, 0, 0, 0, 0, 0,
      2, 0x76, 0x36, 0, 0, 28, 0, 1]"

definition aaaa_store :: record_store where
  "aaaa_store =
     addRecord ascii_toLowerCase Map.empty (js ''v6'') (js ''AAAA'') (js ''::1'') (Some 300)"

text \<open>
  A query for \<open>bad\<close>, type A, class IN, and the store with the one record \<open>bad\<close>, A,
  ttl 300, whose value is the given string.
\<close>

definition bad_query :: buffer where
  "bad_query =
     [0x12, 0x34, 0x01, 0x00, 0, 1, 0, 0, 0, 0, 0, 0,
      3, 0x62, 0x61, 0x64, 0, 0, 1, 0, 1]"

definition bad_store :: "string \<Rightarrow> record_store" where
  "bad_store v =
     addRecord ascii_toLowerCase Map.empty (js ''bad'') (js ''A'') (js v) (Some 300)"

section \<open>Basic facts\<close>

lemma bindE_Inl [simp]: "bindE (Inl e) f = Inl e"
  by (simp add: bindE_def)

lemma bindE_Inr [simp]: "bindE (Inr x) f = f x"
  by (simp add: bindE_def)

lemma copy_whole: "copy msg (alloc (length msg)) 0 0 (length msg) = Inr msg"
  by (simp add: copy_def alloc_def)

lemma createDNSErrorResponse_eq:
  "createDNSErrorResponse msg =
     (if 4 \<le> length msg then Inr (msg[2 := 0x81, 3 := 0x83]) else Inl ERR_OUT_OF_RANGE)"
  by (auto simp: createDNSErrorResponse_def copy_whole writeUInt16BE_def)


section \<open>Facts about the writers and the loops\<close>

declare parseLabels.simps [simp del] copyName.simps [simp del]

lemma bindE_eq_Inr: "(bindE m f = Inr y) = (\<exists>x. m = Inr x \<and> f x = Inr y)"
  by (cases m) simp_all

lemma writeUInt8_Inr:
  "writeUInt8 buf v off = Inr buf' \<Longrightarrow>
   buf' = buf[off := to_byte v] \<and> off < length buf \<and> in_range v 0 255"
  by (auto simp: writeUInt8_def split: if_splits)

lemma writeUInt16BE_Inr:
  "writeUInt16BE buf v off = Inr buf' \<Longrightarrow>
   length buf' = length buf \<and> take off buf' = take off buf \<and> off + 1 < length buf"
  by (auto simp: writeUInt16BE_def split: if_splits)

lemma writeUInt32BE_Inr:
  "writeUInt32BE buf v off = Inr buf' \<Longrightarrow>
   length buf' = length buf \<and> take off buf' = take off buf \<and> off + 3 < length buf"
  by (auto simp: writeUInt32BE_def split: if_splits)

lemma copy_Inr:
  "copy src tgt ts ss se = Inr tgt' \<Longrightarrow> length tgt' = length tgt \<and> take ts tgt' = take ts tgt"
  by (auto simp: copy_def Let_def split: if_splits)

lemma copyName_Inr:
  "copyName msg resp off = Inr (resp', z) \<Longrightarrow>
   length resp' = length resp \<and> take off resp' = take off resp \<and> off \<le> z \<and> z < length msg
   \<and> msg ! z = 0"
proof (induction msg resp off rule: copyName.induct)
  case (1 msg resp off)
  show ?case
  proof (cases "off < length msg")
    case False
    with "1.prems" show ?thesis by (simp add: copyName.simps readUInt8_def)
  next
    case True
    note lt = this
    show ?thesis
    proof (cases "msg ! off = 0")
      case True
      with lt "1.prems" show ?thesis by (simp add: copyName.simps readUInt8_def unat_eq_0)
    next
      case False
      with lt "1.prems" obtain r1 where
        w: "writeUInt8 resp (Num (int (unat (msg ! off)))) off = Inr r1" and
        c: "copyName msg r1 (off + 1) = Inr (resp', z)"
        by (auto simp: copyName.simps [of msg resp off] readUInt8_def unat_eq_0 split: sum.splits)
      from "1.IH" [OF _ _ w c] lt False
      have ih: "length resp' = length r1 \<and> take (off + 1) resp' = take (off + 1) r1
                \<and> off + 1 \<le> z \<and> z < length msg \<and> msg ! z = 0"
        by (simp add: readUInt8_def unat_eq_0)
      from writeUInt8_Inr [OF w] have r1: "r1 = resp[off := to_byte (Num (int (unat (msg ! off))))]"
        and "off < length resp" by simp_all
      have "take off resp' = take off (take (off + 1) resp')" by (simp add: min_def)
      also have "\<dots> = take off (take (off + 1) r1)" using ih by simp
      also have "\<dots> = take off resp" by (simp add: r1 min_def)
      finally show ?thesis using ih r1 by simp
    qed
  qed
qed

lemma writeParts_Inr:
  "writeParts resp off parts = Inr (resp', off') \<Longrightarrow>
   length resp' = length resp \<and> take off resp' = take off resp \<and> off' = off + length parts"
proof (induction parts arbitrary: resp off)
  case Nil
  then show ?case by simp
next
  case (Cons p ps)
  from Cons.prems obtain r1 where
    w: "writeUInt8 resp (parseInt p) off = Inr r1" and
    c: "writeParts r1 (off + 1) ps = Inr (resp', off')"
    by (auto split: sum.splits)
  from Cons.IH [OF c] have ih: "length resp' = length r1"
    "take (off + 1) resp' = take (off + 1) r1" "off' = off + 1 + length ps" by simp_all
  from writeUInt8_Inr [OF w] have r1: "r1 = resp[off := to_byte (parseInt p)]" by simp
  have "take off resp' = take off (take (off + 1) resp')" by (simp add: min_def)
  also have "\<dots> = take off (take (off + 1) r1)" using ih by simp
  also have "\<dots> = take off resp" by (simp add: r1 min_def)
  finally show ?case using ih r1 by simp
qed

lemma parseDNSQuery_length: "parseDNSQuery utf8 msg = Inr q \<Longrightarrow> 12 \<le> length msg"
  by (auto simp: parseDNSQuery_def bindE_eq_Inr readUInt16BE_def split: if_splits)

lemma take2: "2 \<le> off \<Longrightarrow> take off a = take off b \<Longrightarrow> take 2 a = take 2 b"
  by (metis min.absorb1 take_take)

lemma bindE_InrE: "bindE m f = Inr y \<Longrightarrow> (\<And>x. m = Inr x \<Longrightarrow> f x = Inr y \<Longrightarrow> P) \<Longrightarrow> P"
  by (cases m) simp_all

lemma bindE_InrE_pair:
  "bindE m (\<lambda>(a, b). f a b) = Inr y \<Longrightarrow> (\<And>a b. m = Inr (a, b) \<Longrightarrow> f a b = Inr y \<Longrightarrow> P) \<Longrightarrow> P"
  by (cases m) auto

lemma createDNSResponse_steps:
  assumes "createDNSResponse query record msg = Inr r"
  obtains r1 r2 r3 r4 z r5 r6 r7 r8 r9 r10 r11 off where
    "copy msg (alloc 512) 0 0 12 = Inr r1" and
    "writeUInt16BE r1 (Num 0x8180) 2 = Inr r2" and
    "writeUInt16BE r2 (Num 1) 6 = Inr r3" and
    "copyName msg r3 12 = Inr (r4, z)" and
    "writeUInt8 r4 (Num 0) z = Inr r5" and
    "copy msg r5 (z + 1) (z + 1) (z + 1 + 4) = Inr r6" and
    "writeUInt16BE r6 (Num 0xC00C) (z + 1 + 4) = Inr r7" and
    "writeUInt16BE r7 (Num (if rec_type record = [0x41] then 1 else 1)) (z + 1 + 4 + 2) = Inr r8" and
    "writeUInt16BE r8 (Num 1) (z + 1 + 4 + 2 + 2) = Inr r9" and
    "writeUInt32BE r9 (Num (rec_ttl record)) (z + 1 + 4 + 2 + 2 + 2) = Inr r10" and
    "(if rec_type record = [0x41]
      then bindE (writeUInt16BE r10 (Num 4) (z + 1 + 4 + 2 + 2 + 2 + 4)) (\<lambda>response.
             writeParts response (z + 1 + 4 + 2 + 2 + 2 + 4 + 2) (js_split (rec_value record)))
      else Inr (r10, z + 1 + 4 + 2 + 2 + 2 + 4)) = Inr (r11, off)" and
    "r = slice r11 0 off"
  using assms unfolding createDNSResponse_def Let_def
  by (elim bindE_InrE_pair bindE_InrE) (rule that, assumption+, simp)


lemma take_upd1: "off < length buf \<Longrightarrow> take (off + 1) (buf[off := b]) = take off buf @ [b]"
  by (simp add: take_Suc_conv_app_nth)

lemma take_upd2:
  "off + 1 < length buf \<Longrightarrow> take (off + 2) (buf[off := h, off + 1 := l]) = take off buf @ [h, l]"
proof -
  assume a: "off + 1 < length buf"
  have "take (off + 1 + 1) (buf[off := h, off + 1 := l]) = take (off + 1) (buf[off := h]) @ [l]"
    using a by (intro take_upd1) simp
  also have "take (off + 1) (buf[off := h]) = take off buf @ [h]"
    using a by (intro take_upd1) simp
  finally show ?thesis by (simp add: numeral_2_eq_2)
qed

lemma take_upd4:
  assumes "off + 3 < length buf"
  shows "take (off + 4) (buf[off + 3 := b0, off + 2 := b1, off + 1 := b2, off := b3])
         = take off buf @ [b3, b2, b1, b0]"
proof -
  have "buf[off + 3 := b0, off + 2 := b1, off + 1 := b2, off := b3]
        = buf[off := b3, off + 1 := b2, off + 1 + 1 := b1, off + 1 + 1 + 1 := b0]"
    by (simp add: list_update_swap numeral_3_eq_3 numeral_2_eq_2)
  moreover have "take (off + 1 + 1 + 1 + 1) (buf[off := b3, off + 1 := b2, off + 1 + 1 := b1, off + 1 + 1 + 1 := b0])
        = take (off + 1 + 1 + 1) (buf[off := b3, off + 1 := b2, off + 1 + 1 := b1]) @ [b0]"
    using assms by (intro take_upd1) simp
  moreover have "take (off + 1 + 1 + 1) (buf[off := b3, off + 1 := b2, off + 1 + 1 := b1])
        = take (off + 1 + 1) (buf[off := b3, off + 1 := b2]) @ [b1]"
    using assms by (intro take_upd1) simp
  moreover have "take (off + 1 + 1) (buf[off := b3, off + 1 := b2]) = take off buf @ [b3, b2]"
    using assms take_upd2 [of off buf b3 b2] by (simp add: numeral_2_eq_2)
  ultimately show ?thesis by (simp add: numeral_eq_Suc)
qed

lemma writeUInt8_app:
  assumes "length buf = n" "off + 1 \<le> n" "in_range v 0 255"
  shows "\<exists>buf'. writeUInt8 buf v off = Inr buf' \<and> length buf' = n
               \<and> take (off + 1) buf' = take off buf @ [to_byte v]"
  using assms take_upd1 [of off buf "to_byte v"] by (simp add: writeUInt8_def)

lemma writeUInt16BE_app:
  assumes "length buf = n" "off + 2 \<le> n" "in_range v 0 65535"
  shows "\<exists>buf'. writeUInt16BE buf v off = Inr buf' \<and> length buf' = n
               \<and> take (off + 2) buf' = take off buf @ [to_byte (shr8 v), to_byte v]"
  using assms take_upd2 [of off buf "to_byte (shr8 v)" "to_byte v"] by (simp add: writeUInt16BE_def)

lemma writeUInt32BE_app:
  assumes "length buf = n" "off + 4 \<le> n" "in_range v 0 4294967295"
  shows "\<exists>buf'. writeUInt32BE buf v off = Inr buf' \<and> length buf' = n
               \<and> take (off + 4) buf' = take off buf
                    @ [to_byte (shr8 (shr8 (shr8 v))), to_byte (shr8 (shr8 v)), to_byte (shr8 v), to_byte v]"
  using assms take_upd4 [of off buf "to_byte v" "to_byte (shr8 v)" "to_byte (shr8 (shr8 v))" "to_byte (shr8 (shr8 (shr8 v)))"]
  by (simp add: writeUInt32BE_def)

lemma copy_app:
  assumes "length tgt = n" "t + k \<le> n" "s + k \<le> length src"
  shows "\<exists>tgt'. copy src tgt t s (s + k) = Inr tgt' \<and> length tgt' = n
               \<and> take (t + k) tgt' = take t tgt @ take k (drop s src)"
proof (cases "k = 0")
  case True
  then show ?thesis using assms by (simp add: copy_def)
next
  case False
  then have nb: "min (min (s + k - s) (length tgt - t)) (length src - s) = k"
    using assms by simp
  show ?thesis using assms False
    by (simp add: copy_def Let_def nb del: min_less_iff_conj)
qed

lemma uint_byte: "uint (b :: byte) < 256"
  using unsigned_less [of b, where ?'a = int] by simp

lemma to_byte_uint [simp]: "to_byte (Num (uint (b :: byte))) = b"
  using uint_byte [of b] by simp

lemma in_range_uint [simp]: "in_range (Num (uint (b :: byte))) 0 255"
  using uint_byte [of b] by simp

lemma copyName_app:
  assumes "off \<le> z" "z < length msg" "msg ! z = 0" "\<forall>i. off \<le> i \<and> i < z \<longrightarrow> msg ! i \<noteq> 0"
    "z \<le> length resp"
  shows "\<exists>resp'. copyName msg resp off = Inr (resp', z) \<and> length resp' = length resp
                \<and> take z resp' = take off resp @ take (z - off) (drop off msg)"
  using assms
proof (induction "z - off" arbitrary: off resp)
  case 0
  then have "off = z" by simp
  with 0 show ?case by (simp add: copyName.simps [of msg resp z] readUInt8_def)
next
  case (Suc d)
  then have lt: "off < z" by simp
  with Suc.prems have nz: "msg ! off \<noteq> 0" and offm: "off < length msg" and offr: "off < length resp"
    by auto
  let ?r1 = "resp[off := msg ! off]"
  have w: "writeUInt8 resp (Num (int (unat (msg ! off)))) off = Inr ?r1"
    using offr by (simp add: writeUInt8_def del: in_range.simps to_byte.simps)
  have "\<exists>resp'. copyName msg ?r1 (off + 1) = Inr (resp', z) \<and> length resp' = length ?r1
           \<and> take z resp' = take (off + 1) ?r1 @ take (z - (off + 1)) (drop (off + 1) msg)"
    using Suc.hyps(2) Suc.prems lt by (intro Suc.hyps(1)) auto
  then obtain resp' where c: "copyName msg ?r1 (off + 1) = Inr (resp', z)"
    and l: "length resp' = length resp"
    and t: "take z resp' = take (off + 1) ?r1 @ take (z - (off + 1)) (drop (off + 1) msg)"
    by auto
  have "take (off + 1) ?r1 = take off resp @ [msg ! off]" using offr by (rule take_upd1)
  moreover have "take (z - off) (drop off msg) = msg ! off # take (z - (off + 1)) (drop (off + 1) msg)"
    using lt offm by (metis Cons_nth_drop_Suc Suc_diff_Suc Suc_eq_plus1 diff_diff_left take_Suc_Cons)
  ultimately have "take z resp' = take off resp @ take (z - off) (drop off msg)"
    using t by simp
  moreover have "copyName msg resp off = Inr (resp', z)"
    using c w nz offm by (simp add: copyName.simps [of msg resp off] readUInt8_def unat_eq_0)
  ultimately show ?case using l by blast
qed

lemma writeParts_app:
  assumes "length buf = n" "off + length parts \<le> n" "\<forall>p\<in>set parts. in_range (parseInt p) 0 255"
  shows "\<exists>buf'. writeParts buf off parts = Inr (buf', off + length parts) \<and> length buf' = n
               \<and> take (off + length parts) buf' = take off buf @ map (\<lambda>p. to_byte (parseInt p)) parts"
  using assms
proof (induction parts arbitrary: buf off)
  case Nil
  then show ?case by simp
next
  case (Cons p ps)
  from writeUInt8_app [of buf n off "parseInt p"] Cons.prems obtain b1 where
    w: "writeUInt8 buf (parseInt p) off = Inr b1" and l1: "length b1 = n"
    and t1: "take (off + 1) b1 = take off buf @ [to_byte (parseInt p)]" by auto
  from Cons.IH [of b1 "off + 1"] l1 Cons.prems obtain b2 where
    c: "writeParts b1 (off + 1) ps = Inr (b2, off + 1 + length ps)" and l2: "length b2 = n"
    and t2: "take (off + 1 + length ps) b2 = take (off + 1) b1 @ map (\<lambda>p. to_byte (parseInt p)) ps"
    by auto
  show ?case using w c l2 t1 t2 by (simp add: add.assoc add.commute)
qed


lemma question_bytes:
  assumes "12 \<le> z" "z + 5 \<le> length msg" "msg ! z = 0"
  shows "take (z - 12) (drop 12 msg) @ [0] @ take 4 (drop (z + 1) msg) = take (z - 7) (drop 12 msg)"
proof -
  have e: "z - 7 = (z - 12) + 5" and d: "z - 12 + 12 = z"
    using assms by simp_all
  have "take (z - 7) (drop 12 msg) = take (z - 12) (drop 12 msg) @ take 5 (drop z msg)"
    by (simp only: e take_add drop_drop d)
  also have "take 5 (drop z msg) = msg ! z # take 4 (drop (z + 1) msg)"
    using assms by (simp add: Cons_nth_drop_Suc [symmetric] numeral_eq_Suc)
  finally show ?thesis using assms by simp
qed

lemma createDNSResponse_exact:
  assumes z12: "12 \<le> z" and zlen: "z + 5 \<le> length msg" and zero: "msg ! z = 0"
    and nz: "\<forall>i. 12 \<le> i \<and> i < z \<longrightarrow> msg ! i \<noteq> 0"
    and ttl: "0 \<le> rec_ttl record" "rec_ttl record \<le> 4294967295"
    and fit: "z + 15 \<le> 512"
    and parts: "rec_type record = [0x41] \<Longrightarrow>
                  (\<forall>p\<in>set (js_split (rec_value record)). in_range (parseInt p) 0 255)
                  \<and> z + 17 + length (js_split (rec_value record)) \<le> 512"
  shows "createDNSResponse query record msg =
         Inr ((take 12 msg)[2 := 0x81, 3 := 0x80, 6 := 0, 7 := 1]
              @ take (z - 7) (drop 12 msg)
              @ [0xC0, 0x0C, 0, 1, 0, 1]
              @ [to_byte (shr8 (shr8 (shr8 (Num (rec_ttl record))))),
                 to_byte (shr8 (shr8 (Num (rec_ttl record)))),
                 to_byte (shr8 (Num (rec_ttl record))), to_byte (Num (rec_ttl record))]
              @ (if rec_type record = [0x41]
                 then [0, 4] @ map (\<lambda>p. to_byte (parseInt p)) (js_split (rec_value record))
                 else []))"
proof -
  let ?hdr = "(take 12 msg)[2 := 0x81, 3 := 0x80, 6 := 0, 7 := 1]"
  let ?q = "take (z - 7) (drop 12 msg)"
  let ?ttl = "[to_byte (shr8 (shr8 (shr8 (Num (rec_ttl record))))),
                 to_byte (shr8 (shr8 (Num (rec_ttl record)))),
                 to_byte (shr8 (Num (rec_ttl record))), to_byte (Num (rec_ttl record))]"
  define r1 where "r1 = take 12 msg @ replicate 500 (0 :: byte)"
  define r2 where "r2 = r1[2 := 0x81, 3 := 0x80]"
  define r3 where "r3 = r2[6 := 0, 7 := 1]"
  have s1: "copy msg (alloc 512) 0 0 12 = Inr r1"
    using zlen z12 by (simp add: copy_def alloc_def r1_def min_def)
  have l1: "length r1 = 512" using zlen z12 by (simp add: r1_def)
  have s2: "writeUInt16BE r1 (Num 0x8180) 2 = Inr r2"
    using l1 by (simp add: writeUInt16BE_def r2_def)
  have s3: "writeUInt16BE r2 (Num 1) 6 = Inr r3"
    using l1 by (simp add: writeUInt16BE_def r2_def r3_def)
  have l3: "length r3 = 512" using l1 by (simp add: r2_def r3_def)
  have t3: "take 12 r3 = ?hdr"
    using zlen z12 by (simp add: r3_def r2_def r1_def take_update_swap)
  from copyName_app [of 12 z msg r3] z12 zlen zero nz fit l3 obtain r4 where
    s4: "copyName msg r3 12 = Inr (r4, z)" and l4: "length r4 = 512" and
    t4: "take z r4 = ?hdr @ take (z - 12) (drop 12 msg)"
    by (auto simp: t3)
  from writeUInt8_app [of r4 512 z "Num 0"] l4 fit obtain r5 where
    s5: "writeUInt8 r4 (Num 0) z = Inr r5" and l5: "length r5 = 512" and
    t5: "take (z + 1) r5 = take z r4 @ [0]"
    by auto
  from copy_app [of r5 512 "z + 1" 4 "z + 1" msg] l5 fit zlen obtain r6 where
    s6: "copy msg r5 (z + 1) (z + 1) (z + 1 + 4) = Inr r6" and l6: "length r6 = 512" and
    t6: "take (z + 1 + 4) r6 = take (z + 1) r5 @ take 4 (drop (z + 1) msg)"
    by auto
  have q6: "take (z + 1 + 4) r6 = ?hdr @ ?q"
    using t6 t5 t4 question_bytes [OF z12 zlen zero] by simp
  from writeUInt16BE_app [of r6 512 "z + 1 + 4" "Num 0xC00C"] l6 fit obtain r7 where
    s7: "writeUInt16BE r6 (Num 0xC00C) (z + 1 + 4) = Inr r7" and l7: "length r7 = 512" and
    t7: "take (z + 1 + 4 + 2) r7 = take (z + 1 + 4) r6 @ [0xC0, 0x0C]"
    by auto
  from writeUInt16BE_app [of r7 512 "z + 1 + 4 + 2" "Num 1"] l7 fit obtain r8 where
    s8: "writeUInt16BE r7 (Num 1) (z + 1 + 4 + 2) = Inr r8" and l8: "length r8 = 512" and
    t8: "take (z + 1 + 4 + 2 + 2) r8 = take (z + 1 + 4 + 2) r7 @ [0, 1]"
    by auto
  from writeUInt16BE_app [of r8 512 "z + 1 + 4 + 2 + 2" "Num 1"] l8 fit obtain r9 where
    s9: "writeUInt16BE r8 (Num 1) (z + 1 + 4 + 2 + 2) = Inr r9" and l9: "length r9 = 512" and
    t9: "take (z + 1 + 4 + 2 + 2 + 2) r9 = take (z + 1 + 4 + 2 + 2) r8 @ [0, 1]"
    by auto
  from writeUInt32BE_app [of r9 512 "z + 1 + 4 + 2 + 2 + 2" "Num (rec_ttl record)"] l9 fit ttl
  obtain r10 where
    s10: "writeUInt32BE r9 (Num (rec_ttl record)) (z + 1 + 4 + 2 + 2 + 2) = Inr r10" and
    l10: "length r10 = 512" and
    t10: "take (z + 1 + 4 + 2 + 2 + 2 + 4) r10 = take (z + 1 + 4 + 2 + 2 + 2) r9 @ ?ttl"
    by auto
  have q10: "take (z + 1 + 4 + 2 + 2 + 2 + 4) r10 = ?hdr @ ?q @ [0xC0, 0x0C, 0, 1, 0, 1] @ ?ttl"
    using t10 t9 t8 t7 q6 by simp
  show ?thesis
  proof (cases "rec_type record = [0x41]")
    case False
    have "createDNSResponse query record msg = Inr (take (z + 1 + 4 + 2 + 2 + 2 + 4) r10)"
      using False
      by (simp only: createDNSResponse_def Let_def s1 s2 s3 s4 s5 s6 s7 s8 s9 s10 bindE_Inr
            prod.case if_False if_True if_cancel simp_thms slice_def diff_zero drop_0)
    then show ?thesis using False q10 by simp
  next
    case True
    let ?ps = "js_split (rec_value record)"
    from parts [OF True] have pr: "\<forall>p\<in>set ?ps. in_range (parseInt p) 0 255"
      and pf: "z + 17 + length ?ps \<le> 512" by simp_all
    from writeUInt16BE_app [of r10 512 "z + 1 + 4 + 2 + 2 + 2 + 4" "Num 4"] l10 pf obtain r11 where
      s11: "writeUInt16BE r10 (Num 4) (z + 1 + 4 + 2 + 2 + 2 + 4) = Inr r11" and
      l11: "length r11 = 512" and
      t11: "take (z + 1 + 4 + 2 + 2 + 2 + 4 + 2) r11 = take (z + 1 + 4 + 2 + 2 + 2 + 4) r10 @ [0, 4]"
      by auto
    from writeParts_app [of r11 512 "z + 1 + 4 + 2 + 2 + 2 + 4 + 2" ?ps] l11 pf pr obtain r12 where
      s12: "writeParts r11 (z + 1 + 4 + 2 + 2 + 2 + 4 + 2) ?ps
              = Inr (r12, z + 1 + 4 + 2 + 2 + 2 + 4 + 2 + length ?ps)" and
      t12: "take (z + 1 + 4 + 2 + 2 + 2 + 4 + 2 + length ?ps) r12
              = take (z + 1 + 4 + 2 + 2 + 2 + 4 + 2) r11 @ map (\<lambda>p. to_byte (parseInt p)) ?ps"
      by auto
    have "createDNSResponse query record msg
            = Inr (take (z + 1 + 4 + 2 + 2 + 2 + 4 + 2 + length ?ps) r12)"
      using True
      by (simp only: createDNSResponse_def Let_def s1 s2 s3 s4 s5 s6 s7 s8 s9 s10 s11 s12
            bindE_Inr prod.case if_False if_True if_cancel simp_thms slice_def diff_zero drop_0)
    then show ?thesis using True q10 t11 t12 by simp
  qed
qed

lemma pres8:
  "writeUInt8 buf v off = Inr buf' \<Longrightarrow> 2 \<le> off \<Longrightarrow>
   length buf' = length buf \<and> take 2 buf' = take 2 buf"
  by (auto dest!: writeUInt8_Inr)

lemma pres16:
  "writeUInt16BE buf v off = Inr buf' \<Longrightarrow> 2 \<le> off \<Longrightarrow>
   length buf' = length buf \<and> take 2 buf' = take 2 buf"
  using writeUInt16BE_Inr take2 by blast

lemma pres32:
  "writeUInt32BE buf v off = Inr buf' \<Longrightarrow> 2 \<le> off \<Longrightarrow>
   length buf' = length buf \<and> take 2 buf' = take 2 buf"
  using writeUInt32BE_Inr take2 by blast

lemma pres_copy:
  "copy src tgt ts ss se = Inr tgt' \<Longrightarrow> 2 \<le> ts \<Longrightarrow>
   length tgt' = length tgt \<and> take 2 tgt' = take 2 tgt"
  using copy_Inr take2 by blast

lemma pres_copyName:
  "copyName msg resp off = Inr (resp', z) \<Longrightarrow> 2 \<le> off \<Longrightarrow>
   length resp' = length resp \<and> take 2 resp' = take 2 resp \<and> off \<le> z"
  using copyName_Inr take2 by blast

lemma pres_writeParts:
  "writeParts resp off parts = Inr (resp', off') \<Longrightarrow> 2 \<le> off \<Longrightarrow>
   length resp' = length resp \<and> take 2 resp' = take 2 resp \<and> off \<le> off'"
  using writeParts_Inr [of resp off parts resp' off'] take2 [of off resp' resp] by simp

lemma createDNSResponse_Inr:
  assumes "createDNSResponse query record msg = Inr r" and "12 \<le> length msg"
  shows "length r \<le> 512 \<and> take 2 r = take 2 msg"
proof -
  from createDNSResponse_steps [OF assms(1)]
  obtain r1 r2 r3 r4 z r5 r6 r7 r8 r9 r10 r11 off where
    s1: "copy msg (alloc 512) 0 0 12 = Inr r1" and
    s2: "writeUInt16BE r1 (Num 0x8180) 2 = Inr r2" and
    s3: "writeUInt16BE r2 (Num 1) 6 = Inr r3" and
    s4: "copyName msg r3 12 = Inr (r4, z)" and
    s5: "writeUInt8 r4 (Num 0) z = Inr r5" and
    s6: "copy msg r5 (z + 1) (z + 1) (z + 1 + 4) = Inr r6" and
    s7: "writeUInt16BE r6 (Num 0xC00C) (z + 1 + 4) = Inr r7" and
    s8: "writeUInt16BE r7 (Num (if rec_type record = [0x41] then 1 else 1)) (z + 1 + 4 + 2) = Inr r8" and
    s9: "writeUInt16BE r8 (Num 1) (z + 1 + 4 + 2 + 2) = Inr r9" and
    s10: "writeUInt32BE r9 (Num (rec_ttl record)) (z + 1 + 4 + 2 + 2 + 2) = Inr r10" and
    s11: "(if rec_type record = [0x41]
      then bindE (writeUInt16BE r10 (Num 4) (z + 1 + 4 + 2 + 2 + 2 + 4)) (\<lambda>response.
             writeParts response (z + 1 + 4 + 2 + 2 + 2 + 4 + 2) (js_split (rec_value record)))
      else Inr (r10, z + 1 + 4 + 2 + 2 + 2 + 4)) = Inr (r11, off)" and
    r: "r = slice r11 0 off"
    by blast
  have p1: "length r1 = 512 \<and> take 2 r1 = take 2 msg"
    using s1 assms(2) by (auto simp: copy_def alloc_def min_def split: if_splits)
  have p2: "length r2 = 512 \<and> take 2 r2 = take 2 msg" using pres16 [OF s2] p1 by simp
  have p3: "length r3 = 512 \<and> take 2 r3 = take 2 msg" using pres16 [OF s3] p2 by simp
  have p4: "length r4 = 512 \<and> take 2 r4 = take 2 msg \<and> 12 \<le> z"
    using pres_copyName [OF s4] p3 by simp
  have p5: "length r5 = 512 \<and> take 2 r5 = take 2 msg" using pres8 [OF s5] p4 by simp
  have p6: "length r6 = 512 \<and> take 2 r6 = take 2 msg" using pres_copy [OF s6] p5 p4 by simp
  have p7: "length r7 = 512 \<and> take 2 r7 = take 2 msg" using pres16 [OF s7] p6 p4 by simp
  have p8: "length r8 = 512 \<and> take 2 r8 = take 2 msg" using pres16 [OF s8] p7 p4 by simp
  have p9: "length r9 = 512 \<and> take 2 r9 = take 2 msg" using pres16 [OF s9] p8 p4 by simp
  have p10: "length r10 = 512 \<and> take 2 r10 = take 2 msg" using pres32 [OF s10] p9 p4 by simp
  have p11: "length r11 = 512 \<and> take 2 r11 = take 2 msg \<and> 2 \<le> off"
  proof (cases "rec_type record = [0x41]")
    case False
    with s11 p10 show ?thesis by auto
  next
    case True
    with s11 obtain r10' where
      a: "writeUInt16BE r10 (Num 4) (z + 1 + 4 + 2 + 2 + 2 + 4) = Inr r10'" and
      b: "writeParts r10' (z + 1 + 4 + 2 + 2 + 2 + 4 + 2) (js_split (rec_value record)) = Inr (r11, off)"
      by (auto simp: bindE_eq_Inr)
    have "length r10' = 512 \<and> take 2 r10' = take 2 msg" using pres16 [OF a] p10 by simp
    then show ?thesis using pres_writeParts [OF b] by simp
  qed
  show ?thesis using p11 by (simp add: r slice_def min_def)
qed

lemma writeParts_out_of_range:
  "\<exists>p\<in>set parts. \<not> in_range (parseInt p) 0 255 \<Longrightarrow> \<exists>e. writeParts buf off parts = Inl e"
proof (induction parts arbitrary: buf off)
  case Nil
  then show ?case by simp
next
  case (Cons p ps)
  show ?case
  proof (cases "writeUInt8 buf (parseInt p) off")
    case (Inl e)
    then show ?thesis by simp
  next
    case (Inr b1)
    then have "in_range (parseInt p) 0 255" by (auto dest: writeUInt8_Inr)
    with Cons.prems have "\<exists>p\<in>set ps. \<not> in_range (parseInt p) 0 255" by auto
    from Cons.IH [OF this] Inr show ?thesis by simp
  qed
qed

lemma createDNSResponse_out_of_range:
  assumes "rec_type record = [0x41]"
    and "\<exists>p\<in>set (js_split (rec_value record)). \<not> in_range (parseInt p) 0 255"
  shows "\<exists>e. createDNSResponse query record msg = Inl e"
proof (cases "createDNSResponse query record msg")
  case (Inl e)
  then show ?thesis by simp
next
  case (Inr r)
  from createDNSResponse_steps [OF Inr]
  obtain r1 r2 r3 r4 z r5 r6 r7 r8 r9 r10 r11 off where
    "copy msg (alloc 512) 0 0 12 = Inr r1" and
    "writeUInt16BE r1 (Num 0x8180) 2 = Inr r2" and
    "writeUInt16BE r2 (Num 1) 6 = Inr r3" and
    "copyName msg r3 12 = Inr (r4, z)" and
    "writeUInt8 r4 (Num 0) z = Inr r5" and
    "copy msg r5 (z + 1) (z + 1) (z + 1 + 4) = Inr r6" and
    "writeUInt16BE r6 (Num 0xC00C) (z + 1 + 4) = Inr r7" and
    "writeUInt16BE r7 (Num (if rec_type record = [0x41] then 1 else 1)) (z + 1 + 4 + 2) = Inr r8" and
    "writeUInt16BE r8 (Num 1) (z + 1 + 4 + 2 + 2) = Inr r9" and
    "writeUInt32BE r9 (Num (rec_ttl record)) (z + 1 + 4 + 2 + 2 + 2) = Inr r10" and
    s11: "(if rec_type record = [0x41]
      then bindE (writeUInt16BE r10 (Num 4) (z + 1 + 4 + 2 + 2 + 2 + 4)) (\<lambda>response.
             writeParts response (z + 1 + 4 + 2 + 2 + 2 + 4 + 2) (js_split (rec_value record)))
      else Inr (r10, z + 1 + 4 + 2 + 2 + 2 + 4)) = Inr (r11, off)" and
    "r = slice r11 0 off"
    by blast
  from s11 assms(1) have
    "bindE (writeUInt16BE r10 (Num 4) (z + 1 + 4 + 2 + 2 + 2 + 4)) (\<lambda>response.
             writeParts response (z + 1 + 4 + 2 + 2 + 2 + 4 + 2) (js_split (rec_value record)))
       = Inr (r11, off)"
    by simp
  then obtain b where "writeParts b (z + 1 + 4 + 2 + 2 + 2 + 4 + 2) (js_split (rec_value record)) = Inr (r11, off)"
    by (auto simp: bindE_eq_Inr)
  with writeParts_out_of_range [OF assms(2), of b "z + 1 + 4 + 2 + 2 + 2 + 4 + 2"]
  show ?thesis by simp
qed

lemma parseLabels_Inr:
  "parseLabels utf8 msg off acc = Inr (ls, off') \<Longrightarrow>
   off < off' \<and> off' \<le> length msg \<and> msg ! (off' - 1) = 0"
proof (induction utf8 msg off acc rule: parseLabels.induct)
  case (1 utf8 msg offset labels)
  show ?case
  proof (cases "offset < length msg")
    case False
    with "1.prems" show ?thesis by (simp add: parseLabels.simps readUInt8_def)
  next
    case True
    show ?thesis
    proof (cases "msg ! offset = 0")
      case z: True
      with True "1.prems" show ?thesis
        by (auto simp: parseLabels.simps [of utf8 msg offset] readUInt8_def)
    next
      case nz: False
      with True "1.prems" have
        "parseLabels utf8 msg (offset + unat (msg ! offset) + 1)
           (labels @ [utf8 (slice msg (offset + 1) (offset + 1 + unat (msg ! offset)))]) = Inr (ls, off')"
        by (simp add: parseLabels.simps [of utf8 msg offset] readUInt8_def unat_eq_0)
      from "1.IH" [OF _ _ this] True nz show ?thesis
        by (simp add: readUInt8_def unat_eq_0)
    qed
  qed
qed

section \<open>Facts about parsing and dispatching\<close>

lemma take_eq_nth: "take n a = take n b \<Longrightarrow> i < n \<Longrightarrow> n \<le> length b \<Longrightarrow> i < length a \<and> a ! i = b ! i"
proof -
  assume e: "take n a = take n b" and i: "i < n" and n: "n \<le> length b"
  from e have "length (take n a) = length (take n b)" by simp
  with n have la: "n \<le> length a" by simp
  have "a ! i = take n a ! i" using i by simp
  also have "\<dots> = take n b ! i" using e by simp
  also have "\<dots> = b ! i" using i by simp
  finally show ?thesis using la i by simp
qed

lemma take_eq_slice:
  assumes "take n a = take n b" "fin \<le> n"
  shows "slice a start fin = slice b start fin"
proof -
  have "take fin a = take fin (take n a)" using assms(2) by (simp add: min_def)
  also have "\<dots> = take fin (take n b)" using assms(1) by simp
  also have "\<dots> = take fin b" using assms(2) by (simp add: min_def)
  finally have "drop start (take fin a) = drop start (take fin b)" by simp
  then show ?thesis by (simp add: slice_def drop_take)
qed

lemma parseLabels_prefix:
  "parseLabels utf8 msg off acc = Inr (ls, off') \<Longrightarrow> take off' msg' = take off' msg \<Longrightarrow>
   parseLabels utf8 msg' off acc = Inr (ls, off')"
proof (induction utf8 msg off acc rule: parseLabels.induct)
  case (1 utf8 msg offset labels)
  from parseLabels_Inr [OF "1.prems"(1)] have b: "offset < off'" "off' \<le> length msg" by simp_all
  from take_eq_nth [OF "1.prems"(2) b] have m': "offset < length msg'" "msg' ! offset = msg ! offset"
    by simp_all
  from b have m: "offset < length msg" by simp
  show ?case
  proof (cases "msg ! offset = 0")
    case True
    with "1.prems"(1) m m' show ?thesis
      by (simp add: parseLabels.simps [of utf8 _ offset] readUInt8_def)
  next
    case False
    let ?len = "unat (msg ! offset)"
    from False m "1.prems"(1) have rec:
      "parseLabels utf8 msg (offset + ?len + 1)
         (labels @ [utf8 (slice msg (offset + 1) (offset + 1 + ?len))]) = Inr (ls, off')"
      by (simp add: parseLabels.simps [of utf8 msg offset] readUInt8_def unat_eq_0)
    from parseLabels_Inr [OF rec] have "offset + 1 + ?len \<le> off'" by simp
    from take_eq_slice [OF "1.prems"(2) this]
    have sl: "slice msg' (offset + 1) (offset + 1 + ?len) = slice msg (offset + 1) (offset + 1 + ?len)" .
    from "1.IH" [OF _ _ rec "1.prems"(2)] m False
    have "parseLabels utf8 msg' (offset + ?len + 1)
         (labels @ [utf8 (slice msg (offset + 1) (offset + 1 + ?len))]) = Inr (ls, off')"
      by (simp add: readUInt8_def unat_eq_0)
    with False m' sl show ?thesis
      by (simp add: parseLabels.simps [of utf8 msg' offset] readUInt8_def unat_eq_0)
  qed
qed

lemma readUInt16BE_prefix:
  "take n msg' = take n msg \<Longrightarrow> n \<le> length msg \<Longrightarrow> off + 2 \<le> n \<Longrightarrow>
   readUInt16BE msg' off = readUInt16BE msg off"
  using take_eq_nth [of n msg' msg off] take_eq_nth [of n msg' msg "off + 1"]
  by (simp add: readUInt16BE_def)

lemma parseDNSQuery_name:
  assumes "parseDNSQuery utf8 msg = Inr q"
  obtains labels offset where "parseLabels utf8 msg 12 [] = Inr (labels, offset)"
    and "offset + 4 \<le> length msg" and "12 < offset" and "msg ! (offset - 1) = 0"
    and "q_domain q = js_join labels"
proof -
  from assms obtain labels offset where
    pl: "parseLabels utf8 msg 12 [] = Inr (labels, offset)" and
    r: "readUInt16BE msg (offset + 2) \<noteq> Inl ERR_OUT_OF_RANGE" and
    d: "q_domain q = js_join labels"
    by (auto simp: parseDNSQuery_def bindE_eq_Inr)
  from r have "offset + 4 \<le> length msg" by (simp add: readUInt16BE_def split: if_splits)
  moreover from parseLabels_Inr [OF pl] have "12 < offset" and "msg ! (offset - 1) = 0"
    by simp_all
  ultimately show ?thesis using that [OF pl _ _ _ d] by blast
qed

lemma parseDNSQuery_prefix:
  assumes "parseDNSQuery utf8 msg = Inr q" and "parseLabels utf8 msg 12 [] = Inr (labels, offset)"
    and "take (offset + 4) msg' = take (offset + 4) msg"
  shows "parseDNSQuery utf8 msg' = Inr q"
proof -
  from parseDNSQuery_name [OF assms(1)] assms(2) have len: "offset + 4 \<le> length msg" and o: "12 < offset"
    by auto
  have "take offset msg' = take offset (take (offset + 4) msg')" by (simp add: min_def)
  also have "\<dots> = take offset msg" using assms(3) by (simp add: min_def)
  finally have pl: "parseLabels utf8 msg' 12 [] = Inr (labels, offset)"
    using parseLabels_prefix [OF assms(2)] by simp
  note rd = readUInt16BE_prefix [OF assms(3) len]
  show ?thesis
    using assms(1) o
    by (simp add: parseDNSQuery_def pl assms(2) rd)
qed

lemma handleDNSQuery_parse_fails:
  "parseDNSQuery utf8 msg = Inl e \<Longrightarrow>
   handleDNSQuery utf8 toLowerCase dnsRecords msg =
     (if 4 \<le> length msg then Inr (Send (msg[2 := 0x81, 3 := 0x83])) else Inl ERR_OUT_OF_RANGE)"
  by (simp add: handleDNSQuery_def createDNSErrorResponse_eq)

lemma handleDNSQuery_hit_Inr:
  "parseDNSQuery utf8 msg = Inr query \<Longrightarrow> dnsRecords (toLowerCase (q_domain query)) = Some record \<Longrightarrow>
   createDNSResponse query record msg = Inr r \<Longrightarrow>
   handleDNSQuery utf8 toLowerCase dnsRecords msg = Inr (Send r)"
  by (simp add: handleDNSQuery_def)

lemma handleDNSQuery_hit_Inl:
  "parseDNSQuery utf8 msg = Inr query \<Longrightarrow> dnsRecords (toLowerCase (q_domain query)) = Some record \<Longrightarrow>
   createDNSResponse query record msg = Inl e \<Longrightarrow>
   handleDNSQuery utf8 toLowerCase dnsRecords msg = Inr (Send (msg[2 := 0x81, 3 := 0x83]))"
  using parseDNSQuery_length [of utf8 msg query]
  by (simp add: handleDNSQuery_def createDNSErrorResponse_eq)

lemma handleDNSQuery_miss:
  "parseDNSQuery utf8 msg = Inr query \<Longrightarrow> dnsRecords (toLowerCase (q_domain query)) = None \<Longrightarrow>
   handleDNSQuery utf8 toLowerCase dnsRecords msg = Inr (Forward msg query)"
  by (simp add: handleDNSQuery_def)

section \<open>Facts about the answer as a whole\<close>

lemma createDNSResponse_le_512:
  assumes "createDNSResponse query record msg = Inr r"
  shows "length r \<le> 512"
proof -
  from createDNSResponse_steps [OF assms]
  obtain r1 r2 r3 r4 z r5 r6 r7 r8 r9 r10 r11 off where
    s1: "copy msg (alloc 512) 0 0 12 = Inr r1" and
    s2: "writeUInt16BE r1 (Num 0x8180) 2 = Inr r2" and
    s3: "writeUInt16BE r2 (Num 1) 6 = Inr r3" and
    s4: "copyName msg r3 12 = Inr (r4, z)" and
    s5: "writeUInt8 r4 (Num 0) z = Inr r5" and
    s6: "copy msg r5 (z + 1) (z + 1) (z + 1 + 4) = Inr r6" and
    s7: "writeUInt16BE r6 (Num 0xC00C) (z + 1 + 4) = Inr r7" and
    s8: "writeUInt16BE r7 (Num (if rec_type record = [0x41] then 1 else 1)) (z + 1 + 4 + 2) = Inr r8" and
    s9: "writeUInt16BE r8 (Num 1) (z + 1 + 4 + 2 + 2) = Inr r9" and
    s10: "writeUInt32BE r9 (Num (rec_ttl record)) (z + 1 + 4 + 2 + 2 + 2) = Inr r10" and
    s11: "(if rec_type record = [0x41]
      then bindE (writeUInt16BE r10 (Num 4) (z + 1 + 4 + 2 + 2 + 2 + 4)) (\<lambda>response.
             writeParts response (z + 1 + 4 + 2 + 2 + 2 + 4 + 2) (js_split (rec_value record)))
      else Inr (r10, z + 1 + 4 + 2 + 2 + 2 + 4)) = Inr (r11, off)" and
    r: "r = slice r11 0 off"
    by blast
  have "length r1 = 512" using copy_Inr [OF s1] by (simp add: alloc_def)
  then have "length r2 = 512" using writeUInt16BE_Inr [OF s2] by simp
  then have "length r3 = 512" using writeUInt16BE_Inr [OF s3] by simp
  then have "length r4 = 512" using copyName_Inr [OF s4] by simp
  then have "length r5 = 512" using writeUInt8_Inr [OF s5] by simp
  then have "length r6 = 512" using copy_Inr [OF s6] by simp
  then have "length r7 = 512" using writeUInt16BE_Inr [OF s7] by simp
  then have "length r8 = 512" using writeUInt16BE_Inr [OF s8] by simp
  then have "length r9 = 512" using writeUInt16BE_Inr [OF s9] by simp
  then have l10: "length r10 = 512" using writeUInt32BE_Inr [OF s10] by simp
  have "length r11 = 512"
  proof (cases "rec_type record = [0x41]")
    case False
    with s11 l10 show ?thesis by auto
  next
    case True
    with s11 obtain r10' where
      a: "writeUInt16BE r10 (Num 4) (z + 1 + 4 + 2 + 2 + 2 + 4) = Inr r10'" and
      b: "writeParts r10' (z + 1 + 4 + 2 + 2 + 2 + 4 + 2) (js_split (rec_value record)) = Inr (r11, off)"
      by (auto simp: bindE_eq_Inr)
    show ?thesis using writeUInt16BE_Inr [OF a] writeParts_Inr [OF b] l10 by simp
  qed
  then show ?thesis by (simp add: r slice_def)
qed

lemma word_of_int_mod_256: "(word_of_int (n mod 256) :: byte) = word_of_int n"
  by (simp add: word_of_int_eq_iff take_bit_eq_mod)

lemma scenario_A:
  "handleDNSQuery ascii_toString ascii_toLowerCase svc_store svc_query
     = Inr (Send [0x12, 0x34, 0x81, 0x80, 0, 1, 0, 1, 0, 0, 0, 0,
                  3, 0x73, 0x76, 0x63, 5, 0x6C, 0x6F, 0x63, 0x61, 0x6C, 0, 0, 1, 0, 1,
                  0xC0, 0x0C, 0, 1, 0, 1, 0, 0, 1, 44, 0, 4, 127, 0, 0, 1])"
  by code_simp

lemma svc_response:
  "createDNSResponse q \<lparr>rec_type = js ''A'', rec_value = js ''127.0.0.1'', rec_ttl = 300\<rparr> svc_query
   = Inr [0x12, 0x34, 0x81, 0x80, 0, 1, 0, 1, 0, 0, 0, 0,
          3, 0x73, 0x76, 0x63, 5, 0x6C, 0x6F, 0x63, 0x61, 0x6C, 0, 0, 1, 0, 1,
          0xC0, 0x0C, 0, 1, 0, 1, 0, 0, 1, 44, 0, 4, 127, 0, 0, 1]"
  by code_simp

lemma handleDNSQuery_local_hit:
  assumes parse: "parseDNSQuery utf8 msg = Inr query"
    and name: "parseLabels utf8 msg 12 [] = Inr (labels, offset)"
    and nz: "\<forall>i. 12 \<le> i \<and> i < offset - 1 \<longrightarrow> msg ! i \<noteq> 0"
    and hit: "dnsRecords (toLowerCase (q_domain query)) = Some record"
    and ttl: "0 \<le> rec_ttl record" "rec_ttl record \<le> 4294967295"
    and fit: "offset + 14 \<le> 512"
    and parts: "rec_type record = [0x41] \<Longrightarrow>
                  (\<forall>p\<in>set (js_split (rec_value record)). in_range (parseInt p) 0 255)
                  \<and> offset + 16 + length (js_split (rec_value record)) \<le> 512"
  shows "handleDNSQuery utf8 toLowerCase dnsRecords msg =
         Inr (Send ((take 12 msg)[2 := 0x81, 3 := 0x80, 6 := 0, 7 := 1]
              @ slice msg 12 (offset + 4)
              @ [0xC0, 0x0C, 0, 1, 0, 1]
              @ [to_byte (shr8 (shr8 (shr8 (Num (rec_ttl record))))),
                 to_byte (shr8 (shr8 (Num (rec_ttl record)))),
                 to_byte (shr8 (Num (rec_ttl record))), to_byte (Num (rec_ttl record))]
              @ (if rec_type record = [0x41]
                 then [0, 4] @ map (\<lambda>p. to_byte (parseInt p)) (js_split (rec_value record))
                 else [])))"
proof -
  from parseDNSQuery_name [OF parse] name have
    len: "offset + 4 \<le> length msg" and o: "12 < offset" and z: "msg ! (offset - 1) = 0"
    by auto
  have sl: "slice msg 12 (offset + 4) = take (offset - 1 - 7) (drop 12 msg)"
    using o by (simp add: slice_def)
  have c: "createDNSResponse query record msg =
         Inr ((take 12 msg)[2 := 0x81, 3 := 0x80, 6 := 0, 7 := 1]
              @ slice msg 12 (offset + 4)
              @ [0xC0, 0x0C, 0, 1, 0, 1]
              @ [to_byte (shr8 (shr8 (shr8 (Num (rec_ttl record))))),
                 to_byte (shr8 (shr8 (Num (rec_ttl record)))),
                 to_byte (shr8 (Num (rec_ttl record))), to_byte (Num (rec_ttl record))]
              @ (if rec_type record = [0x41]
                 then [0, 4] @ map (\<lambda>p. to_byte (parseInt p)) (js_split (rec_value record))
                 else []))"
    unfolding sl using len o z nz ttl fit parts
    by (intro createDNSResponse_exact) auto
  from parse hit c show ?thesis by (rule handleDNSQuery_hit_Inr)
qed

lemma js_A: "js ''A'' = [0x41]"
  by (simp add: js_def)

lemma handleDNSQuery_A_record:
  assumes parse: "parseDNSQuery utf8 msg = Inr query"
    and name: "parseLabels utf8 msg 12 [] = Inr (labels, offset)"
    and nz: "\<forall>i. 12 \<le> i \<and> i < offset - 1 \<longrightarrow> msg ! i \<noteq> 0"
    and hit: "dnsRecords (toLowerCase (q_domain query)) = Some record"
    and ty: "rec_type record = [0x41]"
    and quad: "map parseInt (js_split (rec_value record)) = [Num a, Num b, Num c, Num d]"
    and rng: "0 \<le> a \<and> a \<le> 255" "0 \<le> b \<and> b \<le> 255" "0 \<le> c \<and> c \<le> 255" "0 \<le> d \<and> d \<le> 255"
    and ttl: "0 \<le> rec_ttl record" "rec_ttl record \<le> 4294967295"
    and fit: "offset + 20 \<le> 512"
  shows "handleDNSQuery utf8 toLowerCase dnsRecords msg =
         Inr (Send ((take 12 msg)[2 := 0x81, 3 := 0x80, 6 := 0, 7 := 1]
              @ slice msg 12 (offset + 4)
              @ [0xC0, 0x0C, 0, 1, 0, 1,
                 word_of_int (rec_ttl record div 16777216), word_of_int (rec_ttl record div 65536),
                 word_of_int (rec_ttl record div 256), word_of_int (rec_ttl record),
                 0, 4, word_of_int a, word_of_int b, word_of_int c, word_of_int d]))"
proof -
  let ?ps = "js_split (rec_value record)"
  have len: "length ?ps = 4" using arg_cong [OF quad, of length] by simp
  have bytes: "map (\<lambda>p. to_byte (parseInt p)) ?ps = [word_of_int a, word_of_int b, word_of_int c, word_of_int d]"
  proof -
    have "map (\<lambda>p. to_byte (parseInt p)) ?ps = map to_byte (map parseInt ?ps)" by simp
    also have "\<dots> = [word_of_int a, word_of_int b, word_of_int c, word_of_int d]"
      unfolding quad by (simp add: word_of_int_mod_256)
    finally show ?thesis .
  qed
  have inr: "\<forall>p\<in>set ?ps. in_range (parseInt p) 0 255"
  proof
    fix p assume "p \<in> set ?ps"
    then have "parseInt p \<in> set (map parseInt ?ps)" by simp
    then show "in_range (parseInt p) 0 255" unfolding quad using rng by auto
  qed
  have t: "rec_ttl record div 256 div 256 = rec_ttl record div 65536"
    "rec_ttl record div 65536 div 256 = rec_ttl record div 16777216"
    by (simp_all add: div_mult2_eq [symmetric])
  have "handleDNSQuery utf8 toLowerCase dnsRecords msg =
         Inr (Send ((take 12 msg)[2 := 0x81, 3 := 0x80, 6 := 0, 7 := 1]
              @ slice msg 12 (offset + 4)
              @ [0xC0, 0x0C, 0, 1, 0, 1]
              @ [to_byte (shr8 (shr8 (shr8 (Num (rec_ttl record))))),
                 to_byte (shr8 (shr8 (Num (rec_ttl record)))),
                 to_byte (shr8 (Num (rec_ttl record))), to_byte (Num (rec_ttl record))]
              @ (if rec_type record = [0x41]
                 then [0, 4] @ map (\<lambda>p. to_byte (parseInt p)) (js_split (rec_value record))
                 else [])))"
    using parse name nz hit ttl
  proof (rule handleDNSQuery_local_hit)
    show "offset + 14 \<le> 512" using fit by simp
    show "(\<forall>p\<in>set ?ps. in_range (parseInt p) 0 255) \<and> offset + 16 + length ?ps \<le> 512"
      using inr len fit by simp
  qed
  then show ?thesis by (simp add: ty bytes t word_of_int_mod_256)
qed

lemma bad_parse:
  "parseDNSQuery ascii_toString bad_query =
     Inr \<lparr>q_header = \<lparr>h_id = 0x1234, h_flags = 0x100, h_qdcount = 1, h_ancount = 0,
                        h_nscount = 0, h_arcount = 0\<rparr>,
          q_domain = js ''bad'', q_type = 1, q_class = 1\<rparr>"
  by (simp add: parseDNSQuery_def readUInt16BE_def parseLabels.simps readUInt8_def
        bad_query_def ascii_toString_def slice_def js_def)

lemma bad_hit:
  "bad_store v (ascii_toLowerCase (js ''bad'')) =
     Some \<lparr>rec_type = js ''A'', rec_value = js v, rec_ttl = 300\<rparr>"
  by (simp add: bad_store_def addRecord_def)

lemma parseInt_256: "parseInt (js ''256'') = Num 256"
  by (simp add: js_def parseInt_def isStrWhiteSpaceChar_def isRadixDigit_def digitValue_def
        digitsValue_def)

lemma split_256: "js_split (js ''256.1.1.1'') = [js ''256'', js ''1'', js ''1'', js ''1'']"
  by (simp add: js_def)

lemma first_question_decides:
  assumes "parseDNSQuery utf8 msg = Inr query"
    and "parseLabels utf8 msg 12 [] = Inr (labels, offset)"
  shows "(\<forall>msg'. take (offset + 4) msg' = take (offset + 4) msg \<longrightarrow>
            parseDNSQuery utf8 msg' = Inr query)
         \<and> handleDNSQuery utf8 toLowerCase dnsRecords msg =
             (case dnsRecords (toLowerCase (q_domain query)) of
                None \<Rightarrow> Inr (Forward msg query)
              | Some record \<Rightarrow>
                  (case createDNSResponse query record msg of
                     Inr response \<Rightarrow> Inr (Send response)
                   | Inl e \<Rightarrow> Inr (Send (msg[2 := 0x81, 3 := 0x83]))))"
proof (intro conjI allI impI)
  fix msg' assume "take (offset + 4) msg' = take (offset + 4) msg"
  with assms show "parseDNSQuery utf8 msg' = Inr query" by (rule parseDNSQuery_prefix)
next
  from parseDNSQuery_length [OF assms(1)] have "4 \<le> length msg" by simp
  then show "handleDNSQuery utf8 toLowerCase dnsRecords msg =
             (case dnsRecords (toLowerCase (q_domain query)) of
                None \<Rightarrow> Inr (Forward msg query)
              | Some record \<Rightarrow>
                  (case createDNSResponse query record msg of
                     Inr response \<Rightarrow> Inr (Send response)
                   | Inl e \<Rightarrow> Inr (Send (msg[2 := 0x81, 3 := 0x83]))))"
    using assms(1)
    by (simp add: handleDNSQuery_def createDNSErrorResponse_eq split: option.splits sum.splits)
qed

lemma to_byte_cases:
  "to_byte v = (case v of NaN \<Rightarrow> 0 | Num n \<Rightarrow> word_of_int n)"
  by (cases v) (simp_all add: word_of_int_mod_256)

lemma bad_name: "parseLabels ascii_toString bad_query 12 [] = Inr ([js ''bad''], 17)"
  by (simp add: parseLabels.simps readUInt8_def bad_query_def ascii_toString_def slice_def js_def)

lemma bad_no_zero: "\<forall>i. 12 \<le> i \<and> i < 17 - 1 \<longrightarrow> bad_query ! i \<noteq> 0"
proof (intro allI impI)
  fix i :: nat assume "12 \<le> i \<and> i < 17 - 1"
  then have "i = 12 \<or> i = 13 \<or> i = 14 \<or> i = 15" by arith
  then show "bad_query ! i \<noteq> 0" by (auto simp: bad_query_def)
qed

lemma split_1_x_3_4: "js_split (js ''1.x.3.4'') = [js ''1'', js ''x'', js ''3'', js ''4'']"
  by (simp add: js_def)

lemma parseInt_1_x_3_4:
  "parseInt (js ''1'') = Num 1" "parseInt (js ''x'') = NaN" "parseInt (js ''3'') = Num 3"
  "parseInt (js ''4'') = Num 4"
  by (simp_all add: js_def parseInt_def isStrWhiteSpaceChar_def isRadixDigit_def digitValue_def
        digitsValue_def)

section \<open>The record store: adding and removing\<close>

text \<open>
  Claim C9. Adding the same domain, type, value and ttl a second time leaves the store, and
  so every lookup, as it is after the first time. Removing a domain whose lower-cased name
  has no record returns \<open>false\<close> and leaves the store as it is; removing a domain that
  has a record returns \<open>true\<close> (and the record is gone afterwards).
\<close>

theorem addRecord_twice_removeRecord:
  "addRecord toLowerCase (addRecord toLowerCase dnsRecords domain ty v ttl) domain ty v ttl
     = addRecord toLowerCase dnsRecords domain ty v ttl
   \<and> (dnsRecords (toLowerCase domain) = None \<longrightarrow>
        removeRecord toLowerCase dnsRecords domain = (False, dnsRecords))
   \<and> (dnsRecords (toLowerCase domain) \<noteq> None \<longrightarrow>
        fst (removeRecord toLowerCase dnsRecords domain) = True
        \<and> snd (removeRecord toLowerCase dnsRecords domain) (toLowerCase domain) = None)"
  by (simp add: addRecord_def removeRecord_def)

theorem addRecord_twice_removeRecord_witness:
  "removeRecord ascii_toLowerCase Map.empty (js ''New.Local'') = (False, Map.empty)
   \<and> fst (removeRecord ascii_toLowerCase
           (addRecord ascii_toLowerCase Map.empty (js ''new.local'') (js ''A'')
              (js ''10.0.0.5'') (Some 60))
           (js ''New.Local'')) = True
   \<and> addRecord ascii_toLowerCase
        (addRecord ascii_toLowerCase Map.empty (js ''new.local'') (js ''A'')
           (js ''10.0.0.5'') (Some 60))
        (js ''new.local'') (js ''A'') (js ''10.0.0.5'') (Some 60)
      = addRecord ascii_toLowerCase Map.empty (js ''new.local'') (js ''A'')
          (js ''10.0.0.5'') (Some 60)"
  using addRecord_twice_removeRecord [of ascii_toLowerCase Map.empty "js ''New.Local''"]
    addRecord_twice_removeRecord [of ascii_toLowerCase
      "addRecord ascii_toLowerCase Map.empty (js ''new.local'') (js ''A'')
         (js ''10.0.0.5'') (Some 60)" "js ''New.Local''"]
    addRecord_twice_removeRecord [of ascii_toLowerCase Map.empty "js ''new.local''"
      "js ''A''" "js ''10.0.0.5''" "Some 60"]
  by (simp add: addRecord_def ascii_toLowerCase_def js_def)

section \<open>The error response\<close>

text \<open>
  Claim C5, amended. For every datagram of at least four bytes the error response exists,
  has the length of the datagram, carries \<open>0x81 0x83\<close> in bytes 2 and 3, and equals the
  datagram at every other offset; its first two bytes, the transaction id, are the
  datagram's.
\<close>

theorem createDNSErrorResponse_frame:
  "4 \<le> length msg \<Longrightarrow>
   \<exists>r. createDNSErrorResponse msg = Inr r \<and> length r = length msg
       \<and> r ! 2 = 0x81 \<and> r ! 3 = 0x83
       \<and> (\<forall>i < length msg. i \<noteq> 2 \<and> i \<noteq> 3 \<longrightarrow> r ! i = msg ! i)
       \<and> take 2 r = take 2 msg"
  by (simp add: createDNSErrorResponse_eq)

theorem createDNSErrorResponse_frame_witness:
  "4 \<le> length [0x12, 0x34, 0x01, 0x00, 0x07 :: byte]
   \<and> (\<exists>r. createDNSErrorResponse [0x12, 0x34, 0x01, 0x00, 0x07] = Inr r
          \<and> r = [0x12, 0x34, 0x81, 0x83, 0x07])"
  using createDNSErrorResponse_frame [of "[0x12, 0x34, 0x01, 0x00, 0x07]"]
  by (simp add: createDNSErrorResponse_eq)

text \<open>
  The claim as stated, for every datagram, fails: a datagram of three bytes has no error
  response at all, the write of the flags throws.
\<close>

theorem createDNSErrorResponse_short_counterexample:
  "createDNSErrorResponse [0x12, 0x34, 0x01] = Inl ERR_OUT_OF_RANGE"
  by (simp add: createDNSErrorResponse_eq)

section \<open>The size of a response\<close>

text \<open>
  Claim C7, amended. An answer built by \<open>createDNSResponse\<close> is at most 512 bytes long,
  whatever the datagram and the record. The error response built by
  \<open>createDNSErrorResponse\<close> is exactly as long as the datagram it answers, so it is within
  512 bytes only when the datagram is.
\<close>

theorem response_sizes:
  "(createDNSResponse query record msg = Inr r \<longrightarrow> length r \<le> 512)
   \<and> (createDNSErrorResponse msg = Inr e \<longrightarrow> length e = length msg)"
  by (auto simp: createDNSResponse_le_512 createDNSErrorResponse_eq split: if_splits)

theorem response_sizes_witness:
  "createDNSResponse undefined \<lparr>rec_type = js ''A'', rec_value = js ''127.0.0.1'', rec_ttl = 300\<rparr> svc_query
   = Inr [0x12, 0x34, 0x81, 0x80, 0, 1, 0, 1, 0, 0, 0, 0,
          3, 0x73, 0x76, 0x63, 5, 0x6C, 0x6F, 0x63, 0x61, 0x6C, 0, 0, 1, 0, 1,
          0xC0, 0x0C, 0, 1, 0, 1, 0, 0, 1, 44, 0, 4, 127, 0, 0, 1]
   \<and> length [0x12, 0x34, 0x81, 0x80, 0, 1, 0, 1, 0, 0, 0, 0,
          3, 0x73, 0x76, 0x63, 5, 0x6C, 0x6F, 0x63, 0x61, 0x6C, 0, 0, 1, 0, 1,
          0xC0, 0x0C, 0, 1, 0, 1, 0, 0, 1, 44, 0, 4, 127, 0, 0, 1 :: byte] \<le> 512
   \<and> createDNSErrorResponse svc_query = Inr (svc_query[2 := 0x81, 3 := 0x83])
   \<and> length (svc_query[2 := 0x81, 3 := 0x83]) = length svc_query"
  using response_sizes [of undefined
      "\<lparr>rec_type = js ''A'', rec_value = js ''127.0.0.1'', rec_ttl = 300\<rparr>" svc_query
      "[0x12, 0x34, 0x81, 0x80, 0, 1, 0, 1, 0, 0, 0, 0,
          3, 0x73, 0x76, 0x63, 5, 0x6C, 0x6F, 0x63, 0x61, 0x6C, 0, 0, 1, 0, 1,
          0xC0, 0x0C, 0, 1, 0, 1, 0, 0, 1, 44, 0, 4, 127, 0, 0, 1]"
      "svc_query[2 := 0x81, 3 := 0x83]"]
    svc_response [of undefined]
  by (simp add: createDNSErrorResponse_eq svc_query_def)

text \<open>
  The claim as stated fails for the error response. A datagram of 513 bytes \<open>0xFF\<close> does
  not parse (the second label length, 255 at offset 268, leads beyond the buffer), and the
  error response sent back has 513 bytes.
\<close>

theorem error_response_513_counterexample:
  "handleDNSQuery ascii_toString ascii_toLowerCase Map.empty (replicate 513 0xFF)
     = Inr (Send ((replicate 513 0xFF)[2 := 0x81, 3 := 0x83]))
   \<and> length ((replicate 513 0xFF)[2 := 0x81, 3 := (0x83::byte)]) = 513"
  by (simp add: handleDNSQuery_def parseDNSQuery_def readUInt16BE_def createDNSErrorResponse_eq
        parseLabels.simps readUInt8_def)

section \<open>Datagrams that do not parse\<close>

text \<open>
  Claim C3 wants every datagram that fails to parse answered with the error response, the
  exception never leaving \<open>handleDNSQuery\<close>. A datagram of at least four bytes that fails
  to parse is answered so (\<open>handleDNSQuery_parse_fails\<close>). A datagram of three bytes is
  not: parsing throws, the \<open>catch\<close> block calls \<open>createDNSErrorResponse\<close>, whose write of
  the flags at offset 2 throws again, and this exception leaves the handler. The same holds
  for every datagram shorter than four bytes, the empty one included.
\<close>

theorem handleDNSQuery_short_datagram:
  "handleDNSQuery utf8 toLowerCase dnsRecords [0x12, 0x34, 0x01] = Inl ERR_OUT_OF_RANGE"
  by (simp add: handleDNSQuery_def parseDNSQuery_def readUInt16BE_def createDNSErrorResponse_eq)

section \<open>The forwarder: reply and timeout\<close>

text \<open>
  Claim C2 wants the path that completes second to do nothing visible: no second datagram
  and no exception. When the upstream reply comes first, the listener relays it and closes
  the socket; the timer is still pending, and its callback closes the socket a second time,
  which throws. In the other order the claim holds (\<open>forward_timeout_then_reply\<close>): the
  error response is the only datagram sent, and the late reply is not delivered. A failed
  upstream send is a second way to two visible actions: its callback sends the error
  response, and so does the timer afterwards (\<open>forward_send_fails_then_timeout\<close>).
\<close>

theorem forward_reply_then_timeout:
  "run msg (forwardDNSQuery msg) [UpstreamMessage reply, Timeout] = Inl ERR_SOCKET_DGRAM_NOT_RUNNING"
  by (simp add: forwardDNSQuery_def on_message_def on_timeout_def socket_close_def server_send_def)

lemma forward_timeout_then_reply:
  "4 \<le> length msg \<Longrightarrow>
   run msg (forwardDNSQuery msg) [Timeout, UpstreamMessage reply]
     = Inr \<lparr>socket_open = False, to_upstream = [msg], to_client = [msg[2 := 0x81, 3 := 0x83]]\<rparr>"
  by (simp add: forwardDNSQuery_def on_message_def on_timeout_def socket_close_def server_send_def
        createDNSErrorResponse_eq)

lemma forward_send_fails_then_timeout:
  "4 \<le> length msg \<Longrightarrow>
   run msg (forwardDNSQuery msg) [SendCallback True, Timeout]
     = Inr \<lparr>socket_open = False, to_upstream = [msg],
            to_client = [msg[2 := 0x81, 3 := 0x83], msg[2 := 0x81, 3 := 0x83]]\<rparr>"
  by (simp add: forwardDNSQuery_def on_send_def on_timeout_def socket_close_def server_send_def
        createDNSErrorResponse_eq)

section \<open>Local hits\<close>

text \<open>
  Claim C1 wants, for every well-formed query that matches a stored A record, an answer
  section that decodes to the record's address and ttl. \<open>createDNSResponse\<close> finds the end
  of the question name by scanning for the first zero byte, while \<open>parseDNSQuery\<close> walks
  the labels by their lengths. For a name with a zero byte inside a label the two disagree.
  In \<open>nul_query\<close> the name ends at offset 18 and the question at offset 23; the scan stops
  at offset 14, so the answer record is written from offset 19 on, over the place of the
  question's type and class. A client that reads the response finds the question up to
  offset 23 and, behind it, the bytes \<open>00 01 00 00 00 3C 00 04 0A 00 00 05\<close>, which are not
  a resource record of the address \<open>10.0.0.5\<close> and the ttl 60. For names without a zero
  byte inside a label the claim holds (\<open>handleDNSQuery_A_record\<close>).
\<close>

theorem handleDNSQuery_nul_label:
  "handleDNSQuery ascii_toString ascii_toLowerCase nul_store nul_query = Inr (Send nul_response)"
  by code_simp

text \<open>
  Claim C6 wants the query parsed from the response to have the domain and the query type of
  the original query. For \<open>nul_query\<close> the response parses to the same domain, but to the
  query type \<open>0xC00C\<close> (the compression pointer of the answer record) instead of 1.
\<close>

theorem parse_response_nul_label:
  "handleDNSQuery ascii_toString ascii_toLowerCase nul_store nul_query = Inr (Send nul_response)
   \<and> parseDNSQuery ascii_toString nul_query =
       Inr \<lparr>q_header = \<lparr>h_id = 0x1234, h_flags = 0x0100, h_qdcount = 1, h_ancount = 0,
                          h_nscount = 0, h_arcount = 0\<rparr>,
            q_domain = [0x61, 0, 0x62, 0x63, 0x64], q_type = 1, q_class = 1\<rparr>
   \<and> parseDNSQuery ascii_toString nul_response =
       Inr \<lparr>q_header = \<lparr>h_id = 0x1234, h_flags = 0x8180, h_qdcount = 1, h_ancount = 1,
                          h_nscount = 0, h_arcount = 0\<rparr>,
            q_domain = [0x61, 0, 0x62, 0x63, 0x64], q_type = 0xC00C, q_class = 1\<rparr>"
proof (intro conjI)
  show "handleDNSQuery ascii_toString ascii_toLowerCase nul_store nul_query = Inr (Send nul_response)"
    by code_simp
  show "parseDNSQuery ascii_toString nul_query =
       Inr \<lparr>q_header = \<lparr>h_id = 0x1234, h_flags = 0x0100, h_qdcount = 1, h_ancount = 0,
                          h_nscount = 0, h_arcount = 0\<rparr>,
            q_domain = [0x61, 0, 0x62, 0x63, 0x64], q_type = 1, q_class = 1\<rparr>"
    by (simp add: parseDNSQuery_def readUInt16BE_def parseLabels.simps readUInt8_def
          nul_query_def ascii_toString_def slice_def)
  show "parseDNSQuery ascii_toString nul_response =
       Inr \<lparr>q_header = \<lparr>h_id = 0x1234, h_flags = 0x8180, h_qdcount = 1, h_ancount = 1,
                          h_nscount = 0, h_arcount = 0\<rparr>,
            q_domain = [0x61, 0, 0x62, 0x63, 0x64], q_type = 0xC00C, q_class = 1\<rparr>"
    by (simp add: parseDNSQuery_def readUInt16BE_def parseLabels.simps readUInt8_def
          nul_response_def ascii_toString_def slice_def)
qed

text \<open>
  Claim C4 wants the type field of the answer record to be the type code of the stored
  record, 28 for AAAA. The source writes \<open>record.type === 'A' ? 1 : 1\<close>, which is 1 for
  every record: the answer for the AAAA record of \<open>aaaa_store\<close> carries the type
  \<open>00 01\<close> behind the pointer \<open>C0 0C\<close> (and ends behind the ttl, with no data length).
\<close>

theorem handleDNSQuery_AAAA_record:
  "handleDNSQuery ascii_toString ascii_toLowerCase aaaa_store aaaa_query
     = Inr (Send [0x12, 0x34, 0x81, 0x80, 0, 1, 0, 1, 0, 0, 0, 0,
                  2, 0x76, 0x36, 0, 0, 28, 0, 1,
                  0xC0, 0x0C, 0, 1, 0, 1, 0, 0, 1, 44])"
  by code_simp

text \<open>
  Claim C8 wants, for a query with a question count above 1, the first question alone to
  decide the match, and the bytes of all questions kept in the question section of the
  response. The first half holds for every query that parses
  (\<open>first_question_decides\<close>): a datagram that agrees with the query on the header and the
  first question parses to the same query, and what the handler does depends on the store
  only through the record under that query's domain. The second half fails.
  \<open>createDNSResponse\<close> copies the header, and with it the question count, but only one
  name and the four bytes behind it. The response to \<open>two_question_query\<close> still announces
  two questions; the second question of the query, \<open>01 62 00 00 01 00 01\<close> from offset 19,
  is not in it; at offset 19 the answer record begins, and \<open>parseLabels\<close> cannot read a
  second question there.
\<close>

theorem handleDNSQuery_two_questions:
  "handleDNSQuery ascii_toString ascii_toLowerCase store_a two_question_query
     = Inr (Send two_question_response)
   \<and> readUInt16BE two_question_response 4 = Inr 2
   \<and> drop 19 two_question_query = [1, 0x62, 0, 0, 1, 0, 1]
   \<and> drop 19 two_question_response
       = [0xC0, 0x0C, 0, 1, 0, 1, 0, 0, 0, 60, 0, 4, 10, 0, 0, 5]
   \<and> parseLabels ascii_toString two_question_response 19 [] = Inl ERR_OUT_OF_RANGE"
proof (intro conjI)
  show "handleDNSQuery ascii_toString ascii_toLowerCase store_a two_question_query
     = Inr (Send two_question_response)"
    by code_simp
  show "parseLabels ascii_toString two_question_response 19 [] = Inl ERR_OUT_OF_RANGE"
    by (simp add: parseLabels.simps readUInt8_def two_question_response_def)
qed (simp_all add: two_question_query_def two_question_response_def readUInt16BE_def)

section \<open>A records with any value\<close>

text \<open>
  Claim C10, amended. For every stored record of type A, whatever its value string, a query
  that parses and matches it does not end the process and does not go unanswered: the
  client is sent one datagram whose first two bytes are the query's transaction id. When
  some part of the value between full stops parses to an integer below 0 or above 255, the
  write of that part throws, the exception is caught, and the datagram is the error
  response. When every part parses to an integer in 0..255 or to no number (and the name
  has no zero byte inside a label, the ttl fits 32 bits and the response fits 512 bytes),
  nothing throws: the datagram is the answer flagged as a success, with the data length 4
  and one data byte for each part, the byte 0 for a part that parses to no number.
\<close>

theorem A_record_always_answered:
  assumes "parseDNSQuery utf8 msg = Inr query"
    and "dnsRecords (toLowerCase (q_domain query)) = Some record"
    and "rec_type record = [0x41]"
  shows "(\<exists>r. handleDNSQuery utf8 toLowerCase dnsRecords msg = Inr (Send r)
              \<and> take 2 r = take 2 msg)
         \<and> ((\<exists>p\<in>set (js_split (rec_value record)). \<not> in_range (parseInt p) 0 255) \<longrightarrow>
              handleDNSQuery utf8 toLowerCase dnsRecords msg
                = Inr (Send (msg[2 := 0x81, 3 := 0x83])))
         \<and> (\<forall>labels offset.
               parseLabels utf8 msg 12 [] = Inr (labels, offset)
               \<and> (\<forall>i. 12 \<le> i \<and> i < offset - 1 \<longrightarrow> msg ! i \<noteq> 0)
               \<and> 0 \<le> rec_ttl record \<and> rec_ttl record \<le> 4294967295
               \<and> (\<forall>p\<in>set (js_split (rec_value record)). in_range (parseInt p) 0 255)
               \<and> offset + 16 + length (js_split (rec_value record)) \<le> 512 \<longrightarrow>
               handleDNSQuery utf8 toLowerCase dnsRecords msg =
                 Inr (Send ((take 12 msg)[2 := 0x81, 3 := 0x80, 6 := 0, 7 := 1]
                   @ slice msg 12 (offset + 4)
                   @ [0xC0, 0x0C, 0, 1, 0, 1]
                   @ [to_byte (shr8 (shr8 (shr8 (Num (rec_ttl record))))),
                      to_byte (shr8 (shr8 (Num (rec_ttl record)))),
                      to_byte (shr8 (Num (rec_ttl record))), to_byte (Num (rec_ttl record))]
                   @ [0, 4]
                   @ map (\<lambda>p. case parseInt p of NaN \<Rightarrow> 0 | Num n \<Rightarrow> word_of_int n)
                       (js_split (rec_value record)))))"
proof (intro conjI impI allI)
  from parseDNSQuery_length [OF assms(1)] have len: "12 \<le> length msg" .
  show "\<exists>r. handleDNSQuery utf8 toLowerCase dnsRecords msg = Inr (Send r)
              \<and> take 2 r = take 2 msg"
  proof (cases "createDNSResponse query record msg")
    case (Inl e)
    from assms(1,2) Inl
    have "handleDNSQuery utf8 toLowerCase dnsRecords msg = Inr (Send (msg[2 := 0x81, 3 := 0x83]))"
      by (rule handleDNSQuery_hit_Inl)
    then show ?thesis by simp
  next
    case (Inr r)
    from assms(1,2) Inr have "handleDNSQuery utf8 toLowerCase dnsRecords msg = Inr (Send r)"
      by (rule handleDNSQuery_hit_Inr)
    with createDNSResponse_Inr [OF Inr len] show ?thesis by simp
  qed
next
  assume "\<exists>p\<in>set (js_split (rec_value record)). \<not> in_range (parseInt p) 0 255"
  from createDNSResponse_out_of_range [OF assms(3) this]
  obtain e where "createDNSResponse query record msg = Inl e" by blast
  with assms(1,2)
  show "handleDNSQuery utf8 toLowerCase dnsRecords msg = Inr (Send (msg[2 := 0x81, 3 := 0x83]))"
    by (rule handleDNSQuery_hit_Inl)
next
  fix labels offset
  assume h: "parseLabels utf8 msg 12 [] = Inr (labels, offset)
               \<and> (\<forall>i. 12 \<le> i \<and> i < offset - 1 \<longrightarrow> msg ! i \<noteq> 0)
               \<and> 0 \<le> rec_ttl record \<and> rec_ttl record \<le> 4294967295
               \<and> (\<forall>p\<in>set (js_split (rec_value record)). in_range (parseInt p) 0 255)
               \<and> offset + 16 + length (js_split (rec_value record)) \<le> 512"
  then have name: "parseLabels utf8 msg 12 [] = Inr (labels, offset)"
    and nz: "\<forall>i. 12 \<le> i \<and> i < offset - 1 \<longrightarrow> msg ! i \<noteq> 0"
    and ttl: "0 \<le> rec_ttl record" "rec_ttl record \<le> 4294967295"
    and fit: "offset + 14 \<le> 512"
    and parts: "(\<forall>p\<in>set (js_split (rec_value record)). in_range (parseInt p) 0 255)
                \<and> offset + 16 + length (js_split (rec_value record)) \<le> 512"
    by simp_all
  have "handleDNSQuery utf8 toLowerCase dnsRecords msg =
         Inr (Send ((take 12 msg)[2 := 0x81, 3 := 0x80, 6 := 0, 7 := 1]
              @ slice msg 12 (offset + 4)
              @ [0xC0, 0x0C, 0, 1, 0, 1]
              @ [to_byte (shr8 (shr8 (shr8 (Num (rec_ttl record))))),
                 to_byte (shr8 (shr8 (Num (rec_ttl record)))),
                 to_byte (shr8 (Num (rec_ttl record))), to_byte (Num (rec_ttl record))]
              @ (if rec_type record = [0x41]
                 then [0, 4] @ map (\<lambda>p. to_byte (parseInt p)) (js_split (rec_value record))
                 else [])))"
    using assms(1) name nz assms(2) ttl fit parts by (rule handleDNSQuery_local_hit)
  then show "handleDNSQuery utf8 toLowerCase dnsRecords msg =
                 Inr (Send ((take 12 msg)[2 := 0x81, 3 := 0x80, 6 := 0, 7 := 1]
                   @ slice msg 12 (offset + 4)
                   @ [0xC0, 0x0C, 0, 1, 0, 1]
                   @ [to_byte (shr8 (shr8 (shr8 (Num (rec_ttl record))))),
                      to_byte (shr8 (shr8 (Num (rec_ttl record)))),
                      to_byte (shr8 (Num (rec_ttl record))), to_byte (Num (rec_ttl record))]
                   @ [0, 4]
                   @ map (\<lambda>p. case parseInt p of NaN \<Rightarrow> 0 | Num n \<Rightarrow> word_of_int n)
                       (js_split (rec_value record))))"
    by (simp only: assms(3) if_True simp_thms to_byte_cases [of "parseInt _"])
qed

theorem A_record_always_answered_witness:
  "handleDNSQuery ascii_toString ascii_toLowerCase (bad_store ''256.1.1.1'') bad_query
     = Inr (Send [0x12, 0x34, 0x81, 0x83, 0, 1, 0, 0, 0, 0, 0, 0,
                  3, 0x62, 0x61, 0x64, 0, 0, 1, 0, 1])
   \<and> handleDNSQuery ascii_toString ascii_toLowerCase (bad_store ''1.x.3.4'') bad_query
     = Inr (Send [0x12, 0x34, 0x81, 0x80, 0, 1, 0, 1, 0, 0, 0, 0,
                  3, 0x62, 0x61, 0x64, 0, 0, 1, 0, 1,
                  0xC0, 0x0C, 0, 1, 0, 1, 0, 0, 1, 44, 0, 4, 1, 0, 3, 4])"
proof
  let ?q = "\<lparr>q_header = \<lparr>h_id = 0x1234, h_flags = 0x100, h_qdcount = 1, h_ancount = 0,
                        h_nscount = 0, h_arcount = 0\<rparr>,
          q_domain = js ''bad'', q_type = 1, q_class = 1\<rparr>"
  let ?r = "\<lparr>rec_type = js ''A'', rec_value = js ''256.1.1.1'', rec_ttl = 300\<rparr>"
  let ?s = "\<lparr>rec_type = js ''A'', rec_value = js ''1.x.3.4'', rec_ttl = 300\<rparr>"
  have hit: "bad_store ''256.1.1.1'' (ascii_toLowerCase (q_domain ?q)) = Some ?r"
    using bad_hit [of "''256.1.1.1''"] by simp
  have ty: "rec_type ?r = [0x41]" by (simp add: js_A)
  have bad: "\<exists>p\<in>set (js_split (rec_value ?r)). \<not> in_range (parseInt p) 0 255"
    by (simp add: split_256 parseInt_256)
  from A_record_always_answered [of ascii_toString bad_query "?q" "bad_store ''256.1.1.1''"
      ascii_toLowerCase "?r"] bad_parse hit ty bad
  have "handleDNSQuery ascii_toString ascii_toLowerCase (bad_store ''256.1.1.1'') bad_query
          = Inr (Send (bad_query[2 := 0x81, 3 := 0x83]))"
    by blast
  then show "handleDNSQuery ascii_toString ascii_toLowerCase (bad_store ''256.1.1.1'') bad_query
     = Inr (Send [0x12, 0x34, 0x81, 0x83, 0, 1, 0, 0, 0, 0, 0, 0,
                  3, 0x62, 0x61, 0x64, 0, 0, 1, 0, 1])"
    by (simp add: bad_query_def)
  have hit': "bad_store ''1.x.3.4'' (ascii_toLowerCase (q_domain ?q)) = Some ?s"
    using bad_hit [of "''1.x.3.4''"] by simp
  have ty': "rec_type ?s = [0x41]" by (simp add: js_A)
  have ok: "parseLabels ascii_toString bad_query 12 [] = Inr ([js ''bad''], 17)
               \<and> (\<forall>i. 12 \<le> i \<and> i < 17 - 1 \<longrightarrow> bad_query ! i \<noteq> 0)
               \<and> 0 \<le> rec_ttl ?s \<and> rec_ttl ?s \<le> 4294967295
               \<and> (\<forall>p\<in>set (js_split (rec_value ?s)). in_range (parseInt p) 0 255)
               \<and> 17 + 16 + length (js_split (rec_value ?s)) \<le> 512"
    using bad_name bad_no_zero by (simp add: split_1_x_3_4 parseInt_1_x_3_4)
  from A_record_always_answered [of ascii_toString bad_query "?q" "bad_store ''1.x.3.4''"
      ascii_toLowerCase "?s"] bad_parse hit' ty' ok
  have "handleDNSQuery ascii_toString ascii_toLowerCase (bad_store ''1.x.3.4'') bad_query =
                 Inr (Send ((take 12 bad_query)[2 := 0x81, 3 := 0x80, 6 := 0, 7 := 1]
                   @ slice bad_query 12 (17 + 4)
                   @ [0xC0, 0x0C, 0, 1, 0, 1]
                   @ [to_byte (shr8 (shr8 (shr8 (Num (rec_ttl ?s))))),
                      to_byte (shr8 (shr8 (Num (rec_ttl ?s)))),
                      to_byte (shr8 (Num (rec_ttl ?s))), to_byte (Num (rec_ttl ?s))]
                   @ [0, 4]
                   @ map (\<lambda>p. case parseInt p of NaN \<Rightarrow> 0 | Num n \<Rightarrow> word_of_int n)
                       (js_split (rec_value ?s))))"
    by blast
  then show "handleDNSQuery ascii_toString ascii_toLowerCase (bad_store ''1.x.3.4'') bad_query
     = Inr (Send [0x12, 0x34, 0x81, 0x80, 0, 1, 0, 1, 0, 0, 0, 0,
                  3, 0x62, 0x61, 0x64, 0, 0, 1, 0, 1,
                  0xC0, 0x0C, 0, 1, 0, 1, 0, 0, 1, 44, 0, 4, 1, 0, 3, 4])"
    by (simp add: split_1_x_3_4 parseInt_1_x_3_4 slice_def bad_query_def)
qed

text \<open>
  The claim as stated, that every value that is not a dotted quad of integers 0..255 leads
  to the error response, fails: a part that parses to no number throws nothing.
  \<open>parseInt('abc')\<close> is \<open>NaN\<close>, which passes the range check of \<open>writeUInt8\<close> and is
  stored as 0. For the value \<open>abc\<close> the client receives an answer flagged as a success,
  with the data length 4 and the single data byte 0, not the error response.
\<close>

theorem nan_part_counterexample:
  "handleDNSQuery ascii_toString ascii_toLowerCase (bad_store ''abc'') bad_query
     = Inr (Send [0x12, 0x34, 0x81, 0x80, 0, 1, 0, 1, 0, 0, 0, 0,
                  3, 0x62, 0x61, 0x64, 0, 0, 1, 0, 1,
                  0xC0, 0x0C, 0, 1, 0, 1, 0, 0, 1, 44, 0, 4, 0])
   \<and> createDNSErrorResponse bad_query
     = Inr [0x12, 0x34, 0x81, 0x83, 0, 1, 0, 0, 0, 0, 0, 0,
            3, 0x62, 0x61, 0x64, 0, 0, 1, 0, 1]"
proof (intro conjI)
  show "handleDNSQuery ascii_toString ascii_toLowerCase (bad_store ''abc'') bad_query
     = Inr (Send [0x12, 0x34, 0x81, 0x80, 0, 1, 0, 1, 0, 0, 0, 0,
                  3, 0x62, 0x61, 0x64, 0, 0, 1, 0, 1,
                  0xC0, 0x0C, 0, 1, 0, 1, 0, 0, 1, 44, 0, 4, 0])"
    by code_simp
  show "createDNSErrorResponse bad_query
     = Inr [0x12, 0x34, 0x81, 0x83, 0, 1, 0, 0, 0, 0, 0, 0,
            3, 0x62, 0x61, 0x64, 0, 0, 1, 0, 1]"
    by (simp add: createDNSErrorResponse_eq bad_query_def)
qed

end
